theory Spec2Isabelle
  imports Complex_Main "HOL-Library.Log_Nat" "HOL-Library.Multiset"
begin

section \<open>JavaScript numbers\<close>

text \<open>
  A TypeScript \<open>number\<close> is an IEEE 754 binary64 value. A finite one is modelled by the
  real number it denotes, and every arithmetic operator rounds its exact result to the
  nearest binary64 value, ties to the even significand. \<open>binary64\<close> is that rounding for
  a 53-bit significand; it coincides with the machine's rounding whenever the exact result
  is zero or has a magnitude in the normal range (\<open>normal_range\<close> below: no underflow to a
  subnormal and no overflow), which covers every pixel coordinate and page dimension.
  Infinities, NaN and the sign of zero are not represented: a division is only meaningful
  here for a non-zero divisor.
\<close>

definition ilog2 :: "real \<Rightarrow> int" where
  \<comment> \<open>the binary exponent \<open>e\<close> of a positive number: \<open>2 powi e \<le> x < 2 powi (e + 1)\<close>\<close>
  "ilog2 x = (if 1 \<le> x then bitlen \<lfloor>x\<rfloor> - 1 else - bitlen (\<lceil>1 / x\<rceil> - 1))"

definition round_half_even :: "real \<Rightarrow> int" where
  "round_half_even y =
     (let f = \<lfloor>y\<rfloor>; d = y - of_int f
      in if d < 1 / 2 then f else if 1 / 2 < d then f + 1 else if even f then f else f + 1)"

definition binary64 :: "real \<Rightarrow> real" where
  "binary64 x =
     (if x = 0 then 0
      else let u = 2 powi (ilog2 \<bar>x\<bar> - 52)
           in sgn x * of_int (round_half_even (\<bar>x\<bar> / u)) * u)"

definition is_double :: "real \<Rightarrow> bool" where
  \<comment> \<open>the real number is the value of some binary64\<close>
  "is_double x \<longleftrightarrow> binary64 x = x"

definition normal_range :: "real \<Rightarrow> bool" where
  \<comment> \<open>zero, or a magnitude that a binary64 holds with its full 53-bit significand\<close>
  "normal_range x \<longleftrightarrow> x = 0 \<or> (2 powi (- 1022) \<le> \<bar>x\<bar> \<and> \<bar>x\<bar> < 2 powi 1023)"

definition js_sub :: "real \<Rightarrow> real \<Rightarrow> real" where
  "js_sub a b = binary64 (a - b)"

definition js_mul :: "real \<Rightarrow> real \<Rightarrow> real" where
  "js_mul a b = binary64 (a * b)"

definition js_div :: "real \<Rightarrow> real \<Rightarrow> real" where
  "js_div a b = binary64 (a / b)"

definition Math_abs :: "real \<Rightarrow> real" where
  "Math_abs a = \<bar>a\<bar>"

definition Math_min :: "real \<Rightarrow> real \<Rightarrow> real" where
  "Math_min a b = min a b"

definition Math_round :: "real \<Rightarrow> int" where
  \<comment> \<open>the nearest integer, a tie going towards plus infinity\<close>
  "Math_round a = \<lfloor>a + 1 / 2\<rfloor>"

definition digit_char :: "nat \<Rightarrow> char" where
  "digit_char d = ''0123456789'' ! d"

fun digits :: "nat \<Rightarrow> string" where
  "digits n = (if n < 10 then [digit_char n] else digits (n div 10) @ [digit_char (n mod 10)])"

declare digits.simps [simp del]

definition js_toString :: "int \<Rightarrow> string" where
  \<comment> \<open>\<open>Number.prototype.toString\<close> on an integral value (below \<open>10^21\<close> in magnitude)\<close>
  "js_toString i = (if i < 0 then CHR ''-'' # digits (nat (- i)) else digits (nat i))"

section \<open>Data model (types/annotation.ts)\<close>

type_synonym date = nat

text \<open>
  \<open>Omit<Annotation, 'id' | 'createdAt' | 'updatedAt'>\<close> is the parent record and
  \<open>Annotation\<close> extends it. The geometry fields \<open>x\<close>, \<open>y\<close>, \<open>width\<close>, \<open>height\<close> carry the
  prefix \<open>rect_\<close> and \<open>id\<close> is \<open>ann_id\<close>. A page number is an integer: the viewer only
  ever steps it by one between 1 and the page count.
\<close>

record annotationData =
  rect_x :: real
  rect_y :: real
  rect_width :: real
  rect_height :: real
  pageNumber :: int
  componentLabel :: string
  cssSelector :: string
  description :: "string option"

record annotation = annotationData +
  ann_id :: string
  createdAt :: date
  updatedAt :: date

text \<open>
  \<open>AnnotationFormData\<close>: the optional key \<open>description\<close> is absent (\<open>None\<close>), or present
  with the value \<open>undefined\<close> (\<open>Some None\<close>) or a string.
\<close>

record annotationFormData =
  data_componentLabel :: string
  data_cssSelector :: string
  data_description :: "string option option"

record annotationState =
  annotations :: "annotation list"
  selectedAnnotation :: "annotation option"
  isCreating :: bool
  editingAnnotation :: "annotation option"

record annotationStats =
  total :: int
  completed :: int
  incomplete :: int
  pages :: int

section \<open>Annotation store (hooks/use-annotations.ts)\<close>

definition initialState :: annotationState where
  "initialState =
     \<lparr>annotations = [], selectedAnnotation = None, isCreating = False, editingAnnotation = None\<rparr>"

definition newAnnotation :: "annotationData \<Rightarrow> string \<Rightarrow> date \<Rightarrow> annotation" where
  \<comment> \<open>\<open>{...annotationData, id: generateId(), createdAt: now, updatedAt: now}\<close>\<close>
  "newAnnotation annotationData newId now =
     annotationData.extend annotationData
       (annotation.fields newId now now)"

definition createAnnotation :: "annotationData \<Rightarrow> string \<Rightarrow> date \<Rightarrow> annotationState \<Rightarrow> annotationState" where
  \<comment> \<open>\<open>newId\<close> is the value of \<open>generateId()\<close>, \<open>now\<close> that of \<open>new Date()\<close>\<close>
  "createAnnotation annotationData newId now prev =
     (let a = newAnnotation annotationData newId now
      in prev\<lparr>annotations := annotations prev @ [a],
              selectedAnnotation := Some a,
              editingAnnotation := Some a\<rparr>)"

definition spread_data :: "annotation \<Rightarrow> annotationFormData \<Rightarrow> date \<Rightarrow> annotation" where
  \<comment> \<open>\<open>{...annotation, ...data, updatedAt: new Date()}\<close>\<close>
  "spread_data a d t =
     a\<lparr>componentLabel := data_componentLabel d,
       cssSelector := data_cssSelector d,
       description := (case data_description d of None \<Rightarrow> description a | Some v \<Rightarrow> v),
       updatedAt := t\<rparr>"

fun update_each :: "string \<Rightarrow> annotationFormData \<Rightarrow> (nat \<Rightarrow> date) \<Rightarrow> nat \<Rightarrow> annotation list \<Rightarrow> annotation list" where
  \<comment> \<open>the \<open>map\<close> callback of \<open>updateAnnotation\<close>; \<open>clock j\<close> is what \<open>new Date()\<close> returns
      while element \<open>j\<close> is visited\<close>
  "update_each i d clock j [] = []"
| "update_each i d clock j (a # as) =
     (if ann_id a = i then spread_data a d (clock j) else a) # update_each i d clock (Suc j) as"

definition updateAnnotation :: "string \<Rightarrow> annotationFormData \<Rightarrow> (nat \<Rightarrow> date) \<Rightarrow> annotationState \<Rightarrow> annotationState" where
  \<comment> \<open>\<open>clock (length (annotations prev))\<close> is the \<open>new Date()\<close> of the selected copy\<close>
  "updateAnnotation i d clock prev =
     prev\<lparr>annotations := update_each i d clock 0 (annotations prev),
          selectedAnnotation :=
            (case selectedAnnotation prev of
               None \<Rightarrow> None
             | Some s \<Rightarrow>
                 if ann_id s = i then Some (spread_data s d (clock (length (annotations prev))))
                 else Some s),
          editingAnnotation := None\<rparr>"

definition deleteAnnotation :: "string \<Rightarrow> annotationState \<Rightarrow> annotationState" where
  "deleteAnnotation i prev =
     prev\<lparr>annotations := filter (\<lambda>a. ann_id a \<noteq> i) (annotations prev),
          selectedAnnotation :=
            (case selectedAnnotation prev of
               None \<Rightarrow> None
             | Some s \<Rightarrow> if ann_id s = i then None else Some s),
          editingAnnotation :=
            (case editingAnnotation prev of
               None \<Rightarrow> None
             | Some s \<Rightarrow> if ann_id s = i then None else Some s)\<rparr>"

definition selectAnnotation :: "annotation option \<Rightarrow> annotationState \<Rightarrow> annotationState" where
  "selectAnnotation a prev = prev\<lparr>selectedAnnotation := a, editingAnnotation := None\<rparr>"

definition setEditingAnnotation :: "annotation option \<Rightarrow> annotationState \<Rightarrow> annotationState" where
  "setEditingAnnotation a prev = prev\<lparr>editingAnnotation := a\<rparr>"

definition setIsCreating :: "bool \<Rightarrow> annotationState \<Rightarrow> annotationState" where
  "setIsCreating b prev = prev\<lparr>isCreating := b\<rparr>"

definition clearAnnotations :: "annotationState \<Rightarrow> annotationState" where
  "clearAnnotations prev = initialState"

definition truthy :: "string \<Rightarrow> bool" where
  \<comment> \<open>a string is truthy unless it is empty\<close>
  "truthy s \<longleftrightarrow> s \<noteq> []"

definition annotationStats :: "annotation list \<Rightarrow> annotationStats" where
  \<comment> \<open>the body shared by \<open>getAnnotationStats\<close> of the hook and of \<open>PdfExporter\<close>\<close>
  "annotationStats as =
     (let total = int (length as);
          completed = int (length (filter (\<lambda>a. truthy (componentLabel a) \<and> truthy (cssSelector a)) as));
          pages = int (length (remdups (map pageNumber as)))
      in \<lparr>total = total, completed = completed, incomplete = total - completed, pages = pages\<rparr>)"

definition getAnnotationStats :: "annotationState \<Rightarrow> annotationStats" where
  "getAnnotationStats s = annotationStats (annotations s)"

datatype storeOp =
    Create annotationData string date
  | Update string annotationFormData "nat \<Rightarrow> date"
  | Delete string

fun applyOp :: "annotationState \<Rightarrow> storeOp \<Rightarrow> annotationState" where
  "applyOp s (Create d newId now) = createAnnotation d newId now s"
| "applyOp s (Update i d clock) = updateAnnotation i d clock s"
| "applyOp s (Delete i) = deleteAnnotation i s"

section \<open>Coordinate normalizer (\<open>PdfViewerClient\<close> in components/annotation-list.tsx)\<close>

record pdfPageInfo =
  info_pageNumber :: int
  info_width :: real
  info_height :: real
  info_scale :: real

record creatingRect =
  startX :: real
  startY :: real
  currentX :: real
  currentY :: real


record domRect =
  rect_left :: real
  rect_top :: real

text \<open>
  The component state that the pointer handlers read and write. \<open>pageRef\<close> holds the
  bounding rectangle of the page element, \<open>None\<close> while the ref is not attached.
\<close>

record viewer =
  viewer_pageNumber :: int
  pageInfo :: "pdfPageInfo option"
  creatingRect :: "creatingRect option"
  pageRef :: "domRect option"

datatype callback =
    OnAnnotationCreate annotationData
  | OnCreatingAnnotationChange bool




definition normalizeRect :: "real \<Rightarrow> real \<Rightarrow> real \<Rightarrow> real \<Rightarrow> pdfPageInfo \<Rightarrow> int \<Rightarrow> annotationData" where
  \<comment> \<open>the object literal \<open>newAnnotation\<close> of \<open>handleMouseUp\<close>\<close>
  "normalizeRect x y width height p n =
     \<lparr>rect_x = js_div x (info_width p),
      rect_y = js_div y (info_height p),
      rect_width = js_div width (info_width p),
      rect_height = js_div height (info_height p),
      pageNumber = n,
      componentLabel = [],
      cssSelector = [],
      description = None\<rparr>"

definition handleMouseUp :: "viewer \<Rightarrow> viewer \<times> callback list" where
  \<comment> \<open>the new component state and the props callbacks invoked, in order\<close>
  "handleMouseUp v =
     (case creatingRect v of
        None \<Rightarrow> (v, [])
      | Some r \<Rightarrow>
          (case pageInfo v of
             None \<Rightarrow> (v, [])
           | Some p \<Rightarrow>
               let width = Math_abs (js_sub (currentX r) (startX r));
                   height = Math_abs (js_sub (currentY r) (startY r))
               in if width < 20 \<or> height < 20 then (v\<lparr>creatingRect := None\<rparr>, [])
                  else
                    let x = Math_min (startX r) (currentX r);
                        y = Math_min (startY r) (currentY r)
                    in (v\<lparr>creatingRect := None\<rparr>,
                        [OnAnnotationCreate (normalizeRect x y width height p (viewer_pageNumber v)),
                         OnCreatingAnnotationChange False])))"

text \<open>
  The application passes \<open>createAnnotation\<close> as \<open>onAnnotationCreate\<close> and
  \<open>setIsCreating\<close> as \<open>onCreatingAnnotationChange\<close>. \<open>newId\<close> and \<open>now\<close> are what
  \<open>generateId()\<close> and \<open>new Date()\<close> return if an annotation is created.
\<close>

fun invoke :: "string \<Rightarrow> date \<Rightarrow> annotationState \<Rightarrow> callback \<Rightarrow> annotationState" where
  "invoke newId now s (OnAnnotationCreate d) = createAnnotation d newId now s"
| "invoke newId now s (OnCreatingAnnotationChange b) = setIsCreating b s"

definition dragEnd :: "string \<Rightarrow> date \<Rightarrow> viewer \<Rightarrow> annotationState \<Rightarrow> viewer \<times> annotationState" where
  "dragEnd newId now v s =
     (let (v', cbs) = handleMouseUp v in (v', foldl (invoke newId now) s cbs))"

record overlayStyle =
  style_left :: real
  style_top :: real
  style_width :: real
  style_height :: real

definition overlayStyle :: "'a annotationData_scheme \<Rightarrow> pdfPageInfo \<Rightarrow> overlayStyle" where
  \<comment> \<open>the pixel box of the annotation overlay, before the numbers are printed with \<open>px\<close>\<close>
  "overlayStyle a p =
     \<lparr>style_left = js_mul (rect_x a) (info_width p),
      style_top = js_mul (rect_y a) (info_height p),
      style_width = js_mul (rect_width a) (info_width p),
      style_height = js_mul (rect_height a) (info_height p)\<rparr>"

text \<open>
  The round trip of the scale-invariance property: the annotation is rendered on the page
  \<open>p\<close> and the pixel box obtained is normalised again with the dimensions of \<open>p\<close>.
\<close>

definition renormalize :: "'a annotationData_scheme \<Rightarrow> pdfPageInfo \<Rightarrow> annotationData" where
  "renormalize a p =
     (let st = overlayStyle a p
      in normalizeRect (style_left st) (style_top st) (style_width st) (style_height st) p
           (pageNumber a))"

definition roundTripInRange :: "real \<Rightarrow> real \<Rightarrow> bool" where
  \<comment> \<open>neither the product nor the quotient of the round trip underflows or overflows\<close>
  "roundTripInRange r w \<longleftrightarrow> normal_range (r * w) \<and> normal_range (js_mul r w / w)"

section \<open>Export (lib/pdf-export.ts)\<close>

subsection \<open>The live document and the other things an export touches\<close>

text \<open>
  The elements that the selector \<open>style, link[rel="stylesheet"]\<close> can match. An SVG
  \<open>style\<close> element matches it without being an \<open>HTMLElement\<close>.
\<close>

datatype element =
    HTMLLinkElement (href: string) (disabled: bool)
  | HTMLStyleElement (textContent: string)
  | SVGStyleElement (svgTextContent: string)

record savedStylesheet =
  saved_element :: nat
  saved_href :: "string option"
  saved_content :: "string option"

datatype js_error = Error string

record canvas =
  canvas_width :: real
  canvas_height :: real
  canvas_dataURL :: string

datatype orientation = Landscape | Portrait

record pdfDocument =
  pdf_orientation :: orientation
  pdf_format :: "real \<times> real"
  pdf_image :: string
  pdf_pages :: nat
  pdf_text :: "string list"

record jsonPosition =
  pos_x :: int
  pos_y :: int
  pos_width :: int
  pos_height :: int

record jsonAnnotation =
  json_id :: string
  json_componentLabel :: string
  json_cssSelector :: string
  json_description :: "string option"
  json_page :: int
  json_position :: jsonPosition
  json_createdAt :: date
  json_updatedAt :: date

record jsonMetadata =
  exportDate :: string
  totalAnnotations :: int
  meta_stats :: annotationStats

record exportData =
  metadata :: jsonMetadata
  json_annotations :: "jsonAnnotation list"

datatype payload = PdfFile pdfDocument | JsonFile exportData | CsvFile string

text \<open>
  An element is referred to by its address, its index in \<open>nodes\<close>; \<open>attached\<close> lists the
  addresses of the elements that are in the document, which is what \<open>querySelectorAll\<close>
  enumerates. An annotation array is referred to by its address in \<open>heap\<close>, so that the
  exporter and its caller can hold the same array. \<open>downloads\<close> collects the files handed
  to the browser and \<open>console\<close> the messages of \<open>console.error\<close>.
\<close>

record world =
  nodes :: "element list"
  attached :: "nat list"
  bodyClones :: nat
  heap :: "nat \<Rightarrow> annotation list"
  console :: "string list"
  downloads :: "(string \<times> payload) list"

text \<open>
  What the surroundings supply: the outcome of the \<open>html2canvas\<close> capture, the clock and
  its renderings, the line breaking and the page height of jsPDF, and the text that
  \<open>getSafeCompleteStylesheet\<close> returns (a fixed template literal of CSS rules).
\<close>

record env =
  html2canvas :: "js_error + canvas"
  dateNow :: int
  nowISOString :: string
  nowLocaleString :: string
  toLocaleString :: "date \<Rightarrow> string"
  splitTextToSize :: "string \<Rightarrow> string list"
  pageSizeHeight :: real
  safeCompleteStylesheet :: string

datatype exportFormat = PDF | JSON | CSV

record exportOptions =
  includeAnnotations :: bool
  includeMetadata :: bool
  format :: exportFormat
  filename :: "string option"

record pdfExporter =
  exporter_annotations :: nat

definition createPdfExporter :: "nat \<Rightarrow> pdfExporter" where
  \<comment> \<open>the constructor stores the reference it is given, not a copy\<close>
  "createPdfExporter annotations_ref = \<lparr>exporter_annotations = annotations_ref\<rparr>"

subsection \<open>Style isolation\<close>

fun suppress :: "nat list \<Rightarrow> savedStylesheet list \<Rightarrow> element list \<Rightarrow> savedStylesheet list \<times> element list" where
  \<comment> \<open>the \<open>forEach\<close> of \<open>replaceAllStylesheets\<close>\<close>
  "suppress [] originalStylesheets ns = (originalStylesheets, ns)"
| "suppress (a # as) originalStylesheets ns =
     (case ns ! a of
        HTMLLinkElement h d \<Rightarrow>
          suppress as
            (originalStylesheets @ [\<lparr>saved_element = a, saved_href = Some h, saved_content = None\<rparr>])
            (ns[a := HTMLLinkElement h True])
      | HTMLStyleElement t \<Rightarrow>
          suppress as
            (originalStylesheets @
               [\<lparr>saved_element = a, saved_href = None, saved_content = Some (if t \<noteq> [] then t else [])\<rparr>])
            (ns[a := HTMLStyleElement []])
      | SVGStyleElement t \<Rightarrow> suppress as originalStylesheets ns)"

definition replaceAllStylesheets :: "env \<Rightarrow> savedStylesheet list \<Rightarrow> nat \<Rightarrow> world \<Rightarrow> savedStylesheet list \<times> world" where
  "replaceAllStylesheets ev originalStylesheets tempStylesheet w =
     (let (saved, ns) = suppress (attached w) originalStylesheets (nodes w)
      in (saved,
          w\<lparr>nodes := ns[tempStylesheet := HTMLStyleElement (safeCompleteStylesheet ev)],
            attached := attached w @ [tempStylesheet]\<rparr>))"

definition restoreOne :: "element list \<Rightarrow> savedStylesheet \<Rightarrow> element list" where
  "restoreOne ns s =
     (case ns ! saved_element s of
        HTMLLinkElement h d \<Rightarrow> ns[saved_element s := HTMLLinkElement h False]
      | HTMLStyleElement t \<Rightarrow>
          (case saved_content s of
             None \<Rightarrow> ns
           | Some content \<Rightarrow> ns[saved_element s := HTMLStyleElement content])
      | SVGStyleElement t \<Rightarrow> ns)"

definition restoreOriginalStylesheets :: "savedStylesheet list \<Rightarrow> nat \<Rightarrow> world \<Rightarrow> world" where
  "restoreOriginalStylesheets originalStylesheets tempStylesheet w =
     (let w' = (if tempStylesheet \<in> set (attached w)
                then w\<lparr>attached := remove1 tempStylesheet (attached w)\<rparr> else w)
      in w'\<lparr>nodes := foldl restoreOne (nodes w') originalStylesheets\<rparr>)"

text \<open>
  Two notions used to state what a cycle of suppression and restoration does. In a
  well-formed document the enumeration lists each element once and only elements that
  exist. \<open>reenabled\<close> is an element after a cycle: a link is switched on, anything else is
  as it was.
\<close>

definition wellFormed :: "world \<Rightarrow> bool" where
  "wellFormed w \<longleftrightarrow> distinct (attached w) \<and> (\<forall>a \<in> set (attached w). a < length (nodes w))"

definition reenabled :: "element \<Rightarrow> element" where
  "reenabled e = (case e of HTMLLinkElement h d \<Rightarrow> HTMLLinkElement h False | _ \<Rightarrow> e)"

subsection \<open>The report page\<close>

definition or_else :: "string \<Rightarrow> string \<Rightarrow> string" where
  \<comment> \<open>\<open>a || b\<close> on strings\<close>
  "or_else a b = (if truthy a then a else b)"

definition entryText :: "env \<Rightarrow> nat \<Rightarrow> annotation \<Rightarrow> string list" where
  \<comment> \<open>the strings that one turn of the \<open>forEach\<close> of \<open>addMetadataPage\<close> writes\<close>
  "entryText ev index a =
     [js_toString (int index + 1) @ ''. '' @ or_else (componentLabel a) ''Unnamed Component'',
      ''   Selector: '' @ or_else (cssSelector a) ''Not specified'',
      ''   Page: '' @ js_toString (pageNumber a)]
     @ (case description a of
          None \<Rightarrow> []
        | Some d \<Rightarrow> if truthy d then splitTextToSize ev (''   Description: '' @ d) else [])"

fun writeEntries :: "env \<Rightarrow> nat \<Rightarrow> annotation list \<Rightarrow> int \<times> pdfDocument \<Rightarrow> int \<times> pdfDocument" where
  \<comment> \<open>the \<open>forEach\<close> itself, with the running \<open>yPosition\<close> and the page breaks\<close>
  "writeEntries ev index [] (yPosition, pdf) = (yPosition, pdf)"
| "writeEntries ev index (a # as) (yPosition, pdf) =
     (let (y0, pdf0) =
            (if js_sub (pageSizeHeight ev) 40 < of_int yPosition
             then (40, pdf\<lparr>pdf_pages := pdf_pages pdf + 1\<rparr>) else (yPosition, pdf));
          lines = (case description a of
                     None \<Rightarrow> []
                   | Some d \<Rightarrow> if truthy d then splitTextToSize ev (''   Description: '' @ d) else []);
          y1 = y0 + 12 + 12 + 12 + int (length lines) * 12 + 8
      in writeEntries ev (Suc index) as
           (y1, pdf0\<lparr>pdf_text := pdf_text pdf0 @ entryText ev index a\<rparr>))"

definition addMetadataPage :: "pdfExporter \<Rightarrow> env \<Rightarrow> pdfDocument \<Rightarrow> world \<Rightarrow> pdfDocument \<times> world" where
  \<comment> \<open>\<open>this.annotations.sort(...)\<close> sorts the array in place, stably, and returns it\<close>
  "addMetadataPage this ev pdf w =
     (let stats = annotationStats (heap w (exporter_annotations this));
          header =
            [''UI Component Documentation'',
             ''Total Components: '' @ js_toString (total stats),
             ''Completed Annotations: '' @ js_toString (completed stats),
             ''Pages Annotated: '' @ js_toString (pages stats),
             ''Export Date: '' @ nowLocaleString ev,
             ''Component List:''];
          pdf1 = pdf\<lparr>pdf_pages := pdf_pages pdf + 1, pdf_text := pdf_text pdf @ header\<rparr>;
          sorted = sort_key pageNumber (heap w (exporter_annotations this));
          w' = w\<lparr>heap := (heap w)(exporter_annotations this := sorted)\<rparr>
      in (snd (writeEntries ev 0 sorted (165, pdf1)), w'))"

subsection \<open>The three export formats\<close>

definition exportTry :: "pdfExporter \<Rightarrow> env \<Rightarrow> string \<Rightarrow> exportOptions \<Rightarrow> nat \<Rightarrow> world \<Rightarrow> savedStylesheet list \<times> (js_error + unit) \<times> world" where
  \<comment> \<open>the \<open>try\<close> block of \<open>exportAsPdf\<close>: the snapshot taken, how the block ended and the
      state it left; jsPDF is taken not to throw\<close>
  "exportTry this ev name options tempStylesheet w =
     (let (originalStylesheets, w1) = replaceAllStylesheets ev [] tempStylesheet w;
          w2 = w1\<lparr>bodyClones := bodyClones w1 + 1\<rparr>
      in case html2canvas ev of
           Inl thrown \<Rightarrow> (originalStylesheets, Inl thrown, w2)
         | Inr c \<Rightarrow>
             let w3 = w2\<lparr>bodyClones := bodyClones w2 - 1\<rparr>;
                 pdf = \<lparr>pdf_orientation =
                          (if canvas_height c < canvas_width c then Landscape else Portrait),
                        pdf_format = (canvas_width c, canvas_height c),
                        pdf_image = canvas_dataURL c,
                        pdf_pages = 1,
                        pdf_text = []\<rparr>;
                 (pdf', w4) = (if includeMetadata options then addMetadataPage this ev pdf w3
                               else (pdf, w3))
             in (originalStylesheets, Inr (),
                 w4\<lparr>downloads := downloads w4 @ [(name @ ''.pdf'', PdfFile pdf')]\<rparr>))"

definition exportAsPdf :: "pdfExporter \<Rightarrow> env \<Rightarrow> string \<Rightarrow> exportOptions \<Rightarrow> world \<Rightarrow> (js_error + unit) \<times> world" where
  \<comment> \<open>\<open>try\<close>, then \<open>catch\<close> (log and throw the replacement error), then \<open>finally\<close>\<close>
  "exportAsPdf this ev name options w =
     (let tempStylesheet = length (nodes w);
          w0 = w\<lparr>nodes := nodes w @ [HTMLStyleElement []]\<rparr>;
          (originalStylesheets, tried, w1) = exportTry this ev name options tempStylesheet w0;
          (result, w2) =
            (case tried of
               Inl (Error m) \<Rightarrow>
                 (Inl (Error ''Failed to export PDF''),
                  w1\<lparr>console := console w1 @ [''Error exporting PDF: '' @ m]\<rparr>)
             | Inr u \<Rightarrow> (Inr (), w1))
      in (result, restoreOriginalStylesheets originalStylesheets tempStylesheet w2))"

definition jsonPosition :: "annotation \<Rightarrow> jsonPosition" where
  "jsonPosition a =
     \<lparr>pos_x = Math_round (js_mul (rect_x a) 100),
      pos_y = Math_round (js_mul (rect_y a) 100),
      pos_width = Math_round (js_mul (rect_width a) 100),
      pos_height = Math_round (js_mul (rect_height a) 100)\<rparr>"

definition jsonAnnotation :: "annotation \<Rightarrow> jsonAnnotation" where
  "jsonAnnotation a =
     \<lparr>json_id = ann_id a,
      json_componentLabel = componentLabel a,
      json_cssSelector = cssSelector a,
      json_description = description a,
      json_page = pageNumber a,
      json_position = jsonPosition a,
      json_createdAt = createdAt a,
      json_updatedAt = updatedAt a\<rparr>"

definition exportDataOf :: "env \<Rightarrow> annotation list \<Rightarrow> exportData" where
  \<comment> \<open>the object \<open>exportData\<close> of \<open>exportAsJson\<close>\<close>
  "exportDataOf ev as =
     \<lparr>metadata = \<lparr>exportDate = nowISOString ev,
                   totalAnnotations = int (length as),
                   meta_stats = annotationStats as\<rparr>,
      json_annotations = map jsonAnnotation as\<rparr>"

definition downloadBlob :: "payload \<Rightarrow> string \<Rightarrow> world \<Rightarrow> world" where
  "downloadBlob blob name w = w\<lparr>downloads := downloads w @ [(name, blob)]\<rparr>"

definition exportAsJson :: "pdfExporter \<Rightarrow> env \<Rightarrow> string \<Rightarrow> world \<Rightarrow> world" where
  "exportAsJson this ev name w =
     downloadBlob (JsonFile (exportDataOf ev (heap w (exporter_annotations this)))) (name @ ''.json'') w"

definition csvHeaders :: "string list" where
  "csvHeaders =
     [''Component Label'', ''CSS Selector'', ''Description'', ''Page'', ''X Position (%)'',
      ''Y Position (%)'', ''Width (%)'', ''Height (%)'', ''Created Date'', ''Updated Date'']"

definition csvRow :: "env \<Rightarrow> annotation \<Rightarrow> string list" where
  "csvRow ev a =
     [or_else (componentLabel a) [],
      or_else (cssSelector a) [],
      (case description a of None \<Rightarrow> [] | Some d \<Rightarrow> or_else d []),
      js_toString (pageNumber a),
      js_toString (Math_round (js_mul (rect_x a) 100)),
      js_toString (Math_round (js_mul (rect_y a) 100)),
      js_toString (Math_round (js_mul (rect_width a) 100)),
      js_toString (Math_round (js_mul (rect_height a) 100)),
      toLocaleString ev (createdAt a),
      toLocaleString ev (updatedAt a)]"

definition csvRows :: "env \<Rightarrow> annotation list \<Rightarrow> string list list" where
  "csvRows ev as = map (csvRow ev) as"

fun join :: "string \<Rightarrow> string list \<Rightarrow> string" where
  "join sep [] = []"
| "join sep [s] = s"
| "join sep (s # t # ss) = s @ sep @ join sep (t # ss)"

definition quoteCell :: "string \<Rightarrow> string" where
  \<comment> \<open>every double quote is doubled and the cell is put between double quotes\<close>
  "quoteCell cell =
     [CHR 0x22] @ concat (map (\<lambda>c. if c = CHR 0x22 then [CHR 0x22, CHR 0x22] else [c]) cell) @ [CHR 0x22]"

definition csvContent :: "env \<Rightarrow> annotation list \<Rightarrow> string" where
  "csvContent ev as =
     join [CHR 0x0A] (map (\<lambda>row. join '','' (map quoteCell row)) (csvHeaders # csvRows ev as))"

definition exportAsCsv :: "pdfExporter \<Rightarrow> env \<Rightarrow> string \<Rightarrow> world \<Rightarrow> world" where
  "exportAsCsv this ev name w =
     downloadBlob (CsvFile (csvContent ev (heap w (exporter_annotations this)))) (name @ ''.csv'') w"

definition exportAnnotatedPdf :: "pdfExporter \<Rightarrow> env \<Rightarrow> exportOptions \<Rightarrow> world \<Rightarrow> (js_error + unit) \<times> world" where
  "exportAnnotatedPdf this ev options w =
     (let name = (case filename options of
                    None \<Rightarrow> ''annotated-pdf-'' @ js_toString (dateNow ev)
                  | Some f \<Rightarrow> or_else f (''annotated-pdf-'' @ js_toString (dateNow ev)))
      in case format options of
           JSON \<Rightarrow> (Inr (), exportAsJson this ev name w)
         | CSV \<Rightarrow> (Inr (), exportAsCsv this ev name w)
         | PDF \<Rightarrow> exportAsPdf this ev name options w)"

subsection \<open>Reading the exports\<close>

text \<open>
  The CSV export is a text. To say what it reports, the text is read the way a CSV reader
  reads a file in which every cell is quoted: a cell starts and ends with a double quote,
  a doubled double quote inside a cell stands for one, a comma after a cell starts the next
  cell of the row and a line feed starts the next row. \<open>csvDataRows\<close> is the rows read
  after the header row.
\<close>

datatype csvMode = ExpectCell | InCell | AfterQuote

fun scanCsv :: "csvMode \<Rightarrow> string \<Rightarrow> string list \<Rightarrow> string list list \<Rightarrow> string \<Rightarrow> string list list option" where
  "scanCsv ExpectCell cell row rows [] = None"
| "scanCsv ExpectCell cell row rows (c # cs) =
     (if c = CHR 0x22 then scanCsv InCell [] row rows cs else None)"
| "scanCsv InCell cell row rows [] = None"
| "scanCsv InCell cell row rows (c # cs) =
     (if c = CHR 0x22 then scanCsv AfterQuote cell row rows cs
      else scanCsv InCell (cell @ [c]) row rows cs)"
| "scanCsv AfterQuote cell row rows [] = Some (rows @ [row @ [cell]])"
| "scanCsv AfterQuote cell row rows (c # cs) =
     (if c = CHR 0x22 then scanCsv InCell (cell @ [CHR 0x22]) row rows cs
      else if c = CHR '','' then scanCsv ExpectCell [] (row @ [cell]) rows cs
      else if c = CHR 0x0A then scanCsv ExpectCell [] [] (rows @ [row @ [cell]]) cs
      else None)"

definition readCsv :: "string \<Rightarrow> string list list option" where
  "readCsv s = scanCsv ExpectCell [] [] [] s"

definition csvDataRows :: "string \<Rightarrow> string list list" where
  "csvDataRows s = (case readCsv s of Some (header # rows) \<Rightarrow> rows | _ \<Rightarrow> [])"

text \<open>
  The percentages that the exports print are faithful for a fraction whose product with
  100 neither underflows nor overflows and stays below the magnitude at which a number is
  printed with an exponent.
\<close>

definition percentInRange :: "real \<Rightarrow> bool" where
  "percentInRange r \<longleftrightarrow> normal_range (r * 100) \<and> \<bar>r * 100\<bar> < 10 ^ 20"

definition positionInRange :: "'a annotationData_scheme \<Rightarrow> bool" where
  "positionInRange a \<longleftrightarrow>
     percentInRange (rect_x a) \<and> percentInRange (rect_y a)
     \<and> percentInRange (rect_width a) \<and> percentInRange (rect_height a)"

section \<open>Concrete inputs\<close>

text \<open>
  A session used by the examples below: two annotations, the first drawn on page 2 and the
  second on page 1, a form as the editor submits it, a clock, a document with an enabled
  stylesheet link, an inline style block and a link that is switched off (an alternate
  theme), and the surroundings of an export whose capture succeeds or throws.
\<close>

definition draftA :: annotationData where
  "draftA =
     \<lparr>rect_x = 1 / 4, rect_y = 1 / 8, rect_width = 1 / 2, rect_height = 1 / 4, pageNumber = 2,
      componentLabel = [], cssSelector = [], description = None\<rparr>"

definition draftB :: annotationData where
  "draftB =
     \<lparr>rect_x = 1 / 8, rect_y = 1 / 2, rect_width = 1 / 4, rect_height = 1 / 4, pageNumber = 1,
      componentLabel = [], cssSelector = [], description = None\<rparr>"

definition stateA :: annotationState where
  "stateA = createAnnotation draftA ''a1'' 1000 initialState"

definition stateAB :: annotationState where
  "stateAB = createAnnotation draftB ''b2'' 1001 stateA"

definition loginForm :: annotationFormData where
  "loginForm =
     \<lparr>data_componentLabel = ''Login Button'', data_cssSelector = ''#login-btn'',
      data_description = Some (Some [])\<rparr>"

definition clockA :: "nat \<Rightarrow> date" where
  "clockA j = 2000 + j"

definition heapAB :: "nat \<Rightarrow> annotation list" where
  "heapAB r = (if r = 0 then annotations stateAB else [])"

definition worldA :: world where
  "worldA =
     \<lparr>nodes = [HTMLLinkElement ''app.css'' False, HTMLStyleElement ''body { margin: 0 }'',
               HTMLLinkElement ''theme-dark.css'' True],
      attached = [0, 1, 2], bodyClones = 0, heap = heapAB, console = [], downloads = []\<rparr>"

definition localeOf :: "date \<Rightarrow> string" where
  "localeOf t = js_toString (int t)"

definition oneLine :: "string \<Rightarrow> string list" where
  "oneLine s = [s]"

definition envOk :: env where
  "envOk =
     \<lparr>html2canvas = Inr \<lparr>canvas_width = 1600, canvas_height = 1200, canvas_dataURL = ''data:image/png''\<rparr>,
      dateNow = 1700000000000, nowISOString = ''2023-11-14T22:13:20.000Z'',
      nowLocaleString = ''11/14/2023, 10:13:20 PM'', toLocaleString = localeOf,
      splitTextToSize = oneLine, pageSizeHeight = 1200, safeCompleteStylesheet = ''* { color: #0f172a }''\<rparr>"

definition envThrows :: env where
  "envThrows = envOk\<lparr>html2canvas := Inl (Error ''unsupported color function'')\<rparr>"

definition pdfOptions :: exportOptions where
  "pdfOptions =
     \<lparr>includeAnnotations = True, includeMetadata = True, format = PDF,
      filename = Some ''annotated-ui-components''\<rparr>"

definition dragRect :: creatingRect where
  "dragRect = \<lparr>startX = 100, startY = 100, currentX = 300, currentY = 200\<rparr>"

definition page1000x800 :: pdfPageInfo where
  "page1000x800 = \<lparr>info_pageNumber = 1, info_width = 1000, info_height = 800, info_scale = 1\<rparr>"

definition viewerA :: viewer where
  "viewerA =
     \<lparr>viewer_pageNumber = 1, pageInfo = Some page1000x800, creatingRect = Some dragRect,
      pageRef = Some \<lparr>rect_left = 0, rect_top = 0\<rparr>\<rparr>"

definition viewerWith :: "creatingRect \<Rightarrow> viewer" where
  "viewerWith r = viewerA\<lparr>creatingRect := Some r\<rparr>"

definition narrowDrag :: creatingRect where
  \<comment> \<open>19 pixels wide\<close>
  "narrowDrag = \<lparr>startX = 100, startY = 100, currentX = 119, currentY = 300\<rparr>"

definition minimalDrag :: creatingRect where
  \<comment> \<open>20 by 20 pixels\<close>
  "minimalDrag = \<lparr>startX = 100, startY = 100, currentX = 120, currentY = 120\<rparr>"

definition overflowDrag :: creatingRect where
  \<comment> \<open>released 25 pixels above the top edge of the page\<close>
  "overflowDrag = \<lparr>startX = 100, startY = 75, currentX = 300, currentY = - 25\<rparr>"



definition zoomDrag :: creatingRect where
  "zoomDrag = \<lparr>startX = 123, startY = 100, currentX = 323, currentY = 200\<rparr>"

definition page800x640 :: pdfPageInfo where
  \<comment> \<open>the page of \<open>page1000x800\<close> rendered at four fifths of the size\<close>
  "page800x640 = \<lparr>info_pageNumber = 1, info_width = 800, info_height = 640, info_scale = 4 / 5\<rparr>"

definition zoomAnnotation :: annotationData where
  \<comment> \<open>what \<open>zoomDrag\<close> stores on \<open>page1000x800\<close>\<close>
  "zoomAnnotation = normalizeRect 123 100 200 100 page1000x800 1"

definition scenarioState :: annotationState where
  \<comment> \<open>the drag of \<open>viewerA\<close> stored in a fresh session, then labelled with \<open>loginForm\<close>\<close>
  "scenarioState =
     updateAnnotation ''a1'' loginForm clockA (snd (dragEnd ''a1'' 1000 viewerA initialState))"

section \<open>Facts about the concrete inputs\<close>

lemmas ex_defs = stateA_def stateAB_def createAnnotation_def newAnnotation_def initialState_def Let_def
        annotationData.extend_def annotation.fields_def annotation.defs annotationData.defs draftA_def draftB_def
        loginForm_def clockA_def

section \<open>The annotation store\<close>


lemma update_each_length [simp]: "length (update_each i d clock k as) = length as"
  by (induction as arbitrary: k) simp_all

lemma update_each_nth:
  "j < length as \<Longrightarrow>
   update_each i d clock k as ! j =
     (if ann_id (as ! j) = i then spread_data (as ! j) d (clock (k + j)) else as ! j)"
proof (induction as arbitrary: k j)
  case Nil
  then show ?case by simp
next
  case (Cons a as)
  show ?case
  proof (cases j)
    case 0
    then show ?thesis by simp
  next
    case (Suc m)
    with Cons.prems have "m < length as" by simp
    from Cons.IH [OF this, of "Suc k"] Suc show ?thesis by simp
  qed
qed

lemma update_each_unknown:
  "i \<notin> ann_id ` set as \<Longrightarrow> update_each i d clock k as = as"
  by (induction as arbitrary: k) auto

lemma annotationStats_total: "total (annotationStats as) = int (length as)"
  by (simp add: annotationStats_def Let_def)

lemma annotationStats_sum:
  "completed (annotationStats as) + incomplete (annotationStats as) = total (annotationStats as)"
  by (simp add: annotationStats_def Let_def)

lemma annotationStats_pages:
  "pages (annotationStats as) = int (card (pageNumber ` set as))"
proof -
  have "card (pageNumber ` set as) = length (remdups (map pageNumber as))"
    by (metis List.card_set set_map)
  then show ?thesis
    by (simp add: annotationStats_def Let_def)
qed

lemma annotationStats_completed:
  "completed (annotationStats as) =
     int (length (filter (\<lambda>a. componentLabel a \<noteq> [] \<and> cssSelector a \<noteq> []) as))"
  by (simp add: annotationStats_def Let_def truthy_def)

text \<open>
  Claim C3, as the code has it. The claim says that \<open>updateAnnotation\<close> with an id that
  matches no stored annotation leaves the whole state unchanged. It does not: every call
  ends the editing session. In \<open>stateA\<close> the annotation just created is open in the
  editor, no annotation has the id \<open>zz\<close>, and the call changes the state.
\<close>

theorem updateAnnotation_unknown_id_counterexample:
  "''zz'' \<notin> ann_id ` set (annotations stateA)
   \<and> updateAnnotation ''zz'' loginForm clockA stateA \<noteq> stateA"
proof -
  have "editingAnnotation stateA \<noteq> None"
    by (simp add: stateA_def createAnnotation_def Let_def)
  moreover have "editingAnnotation (updateAnnotation ''zz'' loginForm clockA stateA) = None"
    by (simp add: updateAnnotation_def)
  ultimately have "updateAnnotation ''zz'' loginForm clockA stateA \<noteq> stateA"
    by metis
  moreover have "''zz'' \<notin> ann_id ` set (annotations stateA)"
    by (simp add: stateA_def createAnnotation_def newAnnotation_def initialState_def Let_def
        annotationData.extend_def annotation.fields_def annotation.defs annotationData.defs)
  ultimately show ?thesis by simp
qed

text \<open>
  Claim C3, amended. \<open>updateAnnotation\<close> is a total function of the state. With an id that
  matches no stored annotation and is not the id of the selected annotation, it changes
  nothing but \<open>editingAnnotation\<close>, which becomes null. In every case the list keeps its
  length, an annotation with the given id gets the label, the selector and (when the form
  has the key) the description of the form and the clock reading taken for it as
  \<open>updatedAt\<close>, every other annotation is kept, a selected annotation with the given id is
  rebuilt in the same way from the selected value with a clock reading of its own,
  \<open>isCreating\<close> is kept and \<open>editingAnnotation\<close> is null.
\<close>

theorem updateAnnotation_effect:
  "(i \<notin> ann_id ` set (annotations s) \<and> (\<forall>a. selectedAnnotation s = Some a \<longrightarrow> ann_id a \<noteq> i)
      \<longrightarrow> updateAnnotation i d clock s = s\<lparr>editingAnnotation := None\<rparr>)
   \<and> length (annotations (updateAnnotation i d clock s)) = length (annotations s)
   \<and> (\<forall>j < length (annotations s).
        annotations (updateAnnotation i d clock s) ! j =
          (if ann_id (annotations s ! j) = i
           then (annotations s ! j)
                  \<lparr>componentLabel := data_componentLabel d,
                   cssSelector := data_cssSelector d,
                   description := (case data_description d of
                                     None \<Rightarrow> description (annotations s ! j) | Some v \<Rightarrow> v),
                   updatedAt := clock j\<rparr>
           else annotations s ! j))
   \<and> (\<forall>a. selectedAnnotation s = Some a \<and> ann_id a = i \<longrightarrow>
        selectedAnnotation (updateAnnotation i d clock s) =
          Some (a\<lparr>componentLabel := data_componentLabel d,
                  cssSelector := data_cssSelector d,
                  description := (case data_description d of None \<Rightarrow> description a | Some v \<Rightarrow> v),
                  updatedAt := clock (length (annotations s))\<rparr>))
   \<and> isCreating (updateAnnotation i d clock s) = isCreating s
   \<and> editingAnnotation (updateAnnotation i d clock s) = None"
proof (intro conjI)
  show "i \<notin> ann_id ` set (annotations s) \<and> (\<forall>a. selectedAnnotation s = Some a \<longrightarrow> ann_id a \<noteq> i)
      \<longrightarrow> updateAnnotation i d clock s = s\<lparr>editingAnnotation := None\<rparr>"
  proof
    assume h: "i \<notin> ann_id ` set (annotations s) \<and> (\<forall>a. selectedAnnotation s = Some a \<longrightarrow> ann_id a \<noteq> i)"
    then have "update_each i d clock 0 (annotations s) = annotations s"
      by (simp add: update_each_unknown)
    moreover from h have "(case selectedAnnotation s of None \<Rightarrow> None
        | Some a \<Rightarrow> if ann_id a = i then Some (spread_data a d (clock (length (annotations s)))) else Some a)
        = selectedAnnotation s"
      by (cases "selectedAnnotation s") simp_all
    ultimately show "updateAnnotation i d clock s = s\<lparr>editingAnnotation := None\<rparr>"
      by (simp add: updateAnnotation_def)
  qed
next
  show "length (annotations (updateAnnotation i d clock s)) = length (annotations s)"
    by (simp add: updateAnnotation_def)
next
  show "\<forall>j < length (annotations s).
        annotations (updateAnnotation i d clock s) ! j =
          (if ann_id (annotations s ! j) = i
           then (annotations s ! j)
                  \<lparr>componentLabel := data_componentLabel d,
                   cssSelector := data_cssSelector d,
                   description := (case data_description d of
                                     None \<Rightarrow> description (annotations s ! j) | Some v \<Rightarrow> v),
                   updatedAt := clock j\<rparr>
           else annotations s ! j)"
    by (simp add: updateAnnotation_def update_each_nth spread_data_def)
next
  show "\<forall>a. selectedAnnotation s = Some a \<and> ann_id a = i \<longrightarrow>
        selectedAnnotation (updateAnnotation i d clock s) =
          Some (a\<lparr>componentLabel := data_componentLabel d,
                  cssSelector := data_cssSelector d,
                  description := (case data_description d of None \<Rightarrow> description a | Some v \<Rightarrow> v),
                  updatedAt := clock (length (annotations s))\<rparr>)"
    by (simp add: updateAnnotation_def spread_data_def)
next
  show "isCreating (updateAnnotation i d clock s) = isCreating s"
    by (simp add: updateAnnotation_def)
next
  show "editingAnnotation (updateAnnotation i d clock s) = None"
    by (simp add: updateAnnotation_def)
qed

theorem updateAnnotation_effect_witness:
  "updateAnnotation ''zz'' loginForm clockA (selectAnnotation None stateAB)
     = (selectAnnotation None stateAB)\<lparr>editingAnnotation := None\<rparr>
   \<and> annotations (updateAnnotation ''b2'' loginForm clockA stateAB) ! 1
     = (annotations stateAB ! 1)
         \<lparr>componentLabel := ''Login Button'', cssSelector := ''#login-btn'',
          description := Some [], updatedAt := 2001\<rparr>
   \<and> annotations (updateAnnotation ''b2'' loginForm clockA stateAB) ! 0 = annotations stateAB ! 0
   \<and> selectedAnnotation (updateAnnotation ''b2'' loginForm clockA stateAB)
     = Some ((annotations stateAB ! 1)
         \<lparr>componentLabel := ''Login Button'', cssSelector := ''#login-btn'',
          description := Some [], updatedAt := 2002\<rparr>)"
proof -
  have ids: "''zz'' \<notin> ann_id ` set (annotations (selectAnnotation None stateAB))"
    "\<forall>a. selectedAnnotation (selectAnnotation None stateAB) = Some a \<longrightarrow> ann_id a \<noteq> ''zz''"
    by (simp_all add: selectAnnotation_def ex_defs)
  have sel: "selectedAnnotation stateAB = Some (annotations stateAB ! 1)"
    "ann_id (annotations stateAB ! 1) = ''b2''" "ann_id (annotations stateAB ! 0) \<noteq> ''b2''"
    "length (annotations stateAB) = 2"
    by (simp_all add: ex_defs)
  show ?thesis
    using updateAnnotation_effect [of "''zz''" "selectAnnotation None stateAB" loginForm clockA]
      updateAnnotation_effect [of "''b2''" stateAB loginForm clockA] ids sel
    by (simp add: loginForm_def clockA_def)
qed

text \<open>
  Claim C6. After any sequence of creates, updates and deletes, from any state, the
  statistics satisfy \<open>completed + incomplete = total\<close>, \<open>pages\<close> is the number of distinct
  page numbers present, and \<open>completed\<close> counts the annotations whose label and selector
  are both non-empty.
\<close>

theorem stats_consistency:
  "completed (getAnnotationStats (foldl applyOp s ops))
     + incomplete (getAnnotationStats (foldl applyOp s ops))
     = total (getAnnotationStats (foldl applyOp s ops))
   \<and> pages (getAnnotationStats (foldl applyOp s ops))
     = int (card (pageNumber ` set (annotations (foldl applyOp s ops))))
   \<and> completed (getAnnotationStats (foldl applyOp s ops))
     = int (length (filter (\<lambda>a. componentLabel a \<noteq> [] \<and> cssSelector a \<noteq> [])
                      (annotations (foldl applyOp s ops))))"
  unfolding getAnnotationStats_def
  using annotationStats_sum annotationStats_pages annotationStats_completed by blast

text \<open>
  Claim C9. Every call of \<open>updateAnnotation\<close>, whatever the id, leaves
  \<open>editingAnnotation\<close> null.
\<close>

theorem updateAnnotation_clears_editing:
  "editingAnnotation (updateAnnotation i d clock s) = None"
  by (simp add: updateAnnotation_def)

section \<open>Style isolation and the PDF export\<close>

lemma suppress_fst_append:
  "fst (suppress as (o1 @ o2) ns) = o1 @ fst (suppress as o2 ns)"
proof (induction as arbitrary: o2 ns)
  case Nil
  then show ?case by simp
next
  case (Cons a as)
  show ?case
  proof (cases "ns ! a")
    case (HTMLLinkElement h d)
    then show ?thesis
      using Cons.IH [of "o2 @ [\<lparr>saved_element = a, saved_href = Some h, saved_content = None\<rparr>]"]
      by simp
  next
    case (HTMLStyleElement t)
    then show ?thesis
      using Cons.IH [of "o2 @ [\<lparr>saved_element = a, saved_href = None,
                                saved_content = Some (if t \<noteq> [] then t else [])\<rparr>]"]
      by simp
  next
    case (SVGStyleElement t)
    then show ?thesis using Cons.IH by simp
  qed
qed

lemma suppress_snd_orig:
  "snd (suppress as orig ns) = snd (suppress as [] ns)"
proof (induction as arbitrary: orig ns)
  case Nil
  then show ?case by simp
next
  case (Cons a as)
  show ?case
    by (cases "ns ! a") (simp_all, (metis Cons.IH)+)
qed

lemma suppress_length [simp]: "length (snd (suppress as orig ns)) = length ns"
  by (induction as arbitrary: orig ns) (auto split: element.splits)

lemma suppress_untouched:
  "k \<notin> set as \<Longrightarrow> snd (suppress as orig ns) ! k = ns ! k"
  by (induction as arbitrary: orig ns) (auto split: element.splits)

lemma restoreOne_length [simp]: "length (restoreOne ns s) = length ns"
  by (simp add: restoreOne_def split: element.splits option.splits)

lemma foldl_restoreOne_length [simp]: "length (foldl restoreOne ns ss) = length ns"
  by (induction ss arbitrary: ns) simp_all

lemma restore_after_suppress:
  "distinct as \<Longrightarrow> \<forall>a \<in> set as. a < length ns \<Longrightarrow> length ms = length ns \<Longrightarrow>
   \<forall>a \<in> set as. ms ! a = snd (suppress as [] ns) ! a \<Longrightarrow> k < length ns \<Longrightarrow>
   foldl restoreOne ms (fst (suppress as [] ns)) ! k =
     (if k \<in> set as then reenabled (ns ! k) else ms ! k)"
proof (induction as arbitrary: ns ms)
  case Nil
  then show ?case by simp
next
  case (Cons a as)
  from Cons.prems have a: "a \<notin> set as" "a < length ns" "distinct as" by simp_all
  show ?case
  proof (cases "ns ! a")
    case (HTMLLinkElement h d)
    let ?e = "\<lparr>saved_element = a, saved_href = Some h, saved_content = None\<rparr>"
    let ?ns1 = "ns[a := HTMLLinkElement h True]"
    let ?ms1 = "ms[a := HTMLLinkElement h False]"
    have sup: "suppress (a # as) [] ns = suppress as [?e] ?ns1"
      using HTMLLinkElement by simp
    have fst_eq: "fst (suppress (a # as) [] ns) = ?e # fst (suppress as [] ?ns1)"
      using sup suppress_fst_append [of as "[?e]" "[]" ?ns1] by simp
    have snd_eq: "snd (suppress (a # as) [] ns) = snd (suppress as [] ?ns1)"
      using sup suppress_snd_orig [of as "[?e]" ?ns1] by simp
    have p4: "\<forall>b \<in> set (a # as). ms ! b = snd (suppress as [] ?ns1) ! b"
      using Cons.prems(4) unfolding snd_eq .
    then have "ms ! a = snd (suppress as [] ?ns1) ! a"
      by simp
    also have "\<dots> = ?ns1 ! a"
      using a by (simp add: suppress_untouched)
    finally have msa: "ms ! a = HTMLLinkElement h True"
      using a by simp
    then have r1: "restoreOne ms ?e = ?ms1"
      by (simp add: restoreOne_def)
    have agree: "\<forall>b \<in> set as. ?ms1 ! b = snd (suppress as [] ?ns1) ! b"
    proof
      fix b assume b: "b \<in> set as"
      with a have "b \<noteq> a" by auto
      then have "?ms1 ! b = ms ! b" by simp
      with p4 b show "?ms1 ! b = snd (suppress as [] ?ns1) ! b" by simp
    qed
    have ih: "foldl restoreOne ?ms1 (fst (suppress as [] ?ns1)) ! k =
        (if k \<in> set as then reenabled (?ns1 ! k) else ?ms1 ! k)"
      using Cons.IH [of ?ns1 ?ms1] a Cons.prems agree by simp
    have step: "foldl restoreOne ms (fst (suppress (a # as) [] ns)) =
        foldl restoreOne ?ms1 (fst (suppress as [] ?ns1))"
      unfolding fst_eq using r1 by simp
    show ?thesis
    proof (cases "k = a")
      case True
      with ih a have "foldl restoreOne ?ms1 (fst (suppress as [] ?ns1)) ! k = ?ms1 ! a"
        by simp
      then show ?thesis
        unfolding step using True a HTMLLinkElement Cons.prems(3)
        by (simp add: reenabled_def)
    next
      case False
      then have "?ns1 ! k = ns ! k" "?ms1 ! k = ms ! k" by simp_all
      with ih False show ?thesis
        unfolding step by simp
    qed
  next
    case (HTMLStyleElement t)
    let ?e = "\<lparr>saved_element = a, saved_href = None, saved_content = Some (if t \<noteq> [] then t else [])\<rparr>"
    let ?ns1 = "ns[a := HTMLStyleElement []]"
    let ?ms1 = "ms[a := HTMLStyleElement t]"
    have sup: "suppress (a # as) [] ns = suppress as [?e] ?ns1"
      using HTMLStyleElement by simp
    have fst_eq: "fst (suppress (a # as) [] ns) = ?e # fst (suppress as [] ?ns1)"
      using sup suppress_fst_append [of as "[?e]" "[]" ?ns1] by simp
    have snd_eq: "snd (suppress (a # as) [] ns) = snd (suppress as [] ?ns1)"
      using sup suppress_snd_orig [of as "[?e]" ?ns1] by simp
    have p4: "\<forall>b \<in> set (a # as). ms ! b = snd (suppress as [] ?ns1) ! b"
      using Cons.prems(4) unfolding snd_eq .
    then have "ms ! a = snd (suppress as [] ?ns1) ! a"
      by simp
    also have "\<dots> = ?ns1 ! a"
      using a by (simp add: suppress_untouched)
    finally have msa: "ms ! a = HTMLStyleElement []"
      using a by simp
    then have r1: "restoreOne ms ?e = ?ms1"
      by (simp add: restoreOne_def)
    have agree: "\<forall>b \<in> set as. ?ms1 ! b = snd (suppress as [] ?ns1) ! b"
    proof
      fix b assume b: "b \<in> set as"
      with a have "b \<noteq> a" by auto
      then have "?ms1 ! b = ms ! b" by simp
      with p4 b show "?ms1 ! b = snd (suppress as [] ?ns1) ! b" by simp
    qed
    have ih: "foldl restoreOne ?ms1 (fst (suppress as [] ?ns1)) ! k =
        (if k \<in> set as then reenabled (?ns1 ! k) else ?ms1 ! k)"
      using Cons.IH [of ?ns1 ?ms1] a Cons.prems agree by simp
    have step: "foldl restoreOne ms (fst (suppress (a # as) [] ns)) =
        foldl restoreOne ?ms1 (fst (suppress as [] ?ns1))"
      unfolding fst_eq using r1 by simp
    show ?thesis
    proof (cases "k = a")
      case True
      with ih a have "foldl restoreOne ?ms1 (fst (suppress as [] ?ns1)) ! k = ?ms1 ! a"
        by simp
      then show ?thesis
        unfolding step using True a HTMLStyleElement Cons.prems(3)
        by (simp add: reenabled_def)
    next
      case False
      then have "?ns1 ! k = ns ! k" "?ms1 ! k = ms ! k" by simp_all
      with ih False show ?thesis
        unfolding step by simp
    qed
  next
    case (SVGStyleElement t)
    have sup: "suppress (a # as) [] ns = suppress as [] ns"
      using SVGStyleElement by simp
    have p4: "\<forall>b \<in> set (a # as). ms ! b = snd (suppress as [] ns) ! b"
      using Cons.prems(4) unfolding sup .
    then have "ms ! a = snd (suppress as [] ns) ! a"
      by simp
    also have "\<dots> = ns ! a"
      using a by (simp add: suppress_untouched)
    finally have msa: "ms ! a = ns ! a" .
    have agree: "\<forall>b \<in> set as. ms ! b = snd (suppress as [] ns) ! b"
      using p4 by simp
    have ih: "foldl restoreOne ms (fst (suppress as [] ns)) ! k =
        (if k \<in> set as then reenabled (ns ! k) else ms ! k)"
      using Cons.IH [of ns ms] a Cons.prems agree by simp
    show ?thesis
    proof (cases "k = a")
      case True
      with ih a msa SVGStyleElement show ?thesis
        unfolding sup by (simp add: reenabled_def)
    next
      case False
      with ih show ?thesis
        unfolding sup by simp
    qed
  qed
qed


lemma addMetadataPage_dom [simp]:
  "nodes (snd (addMetadataPage this ev pdf w)) = nodes w"
  "attached (snd (addMetadataPage this ev pdf w)) = attached w"
  by (simp_all add: addMetadataPage_def Let_def)

lemma addMetadataPage_domD:
  "addMetadataPage this ev pdf w = (p, w') \<Longrightarrow> nodes w' = nodes w \<and> attached w' = attached w"
  using addMetadataPage_dom [of this ev pdf w] by simp

lemma exportTry_dom:
  assumes "exportTry this ev name options temp w0 = (saved, tried, w1)"
  shows "saved = fst (suppress (attached w0) [] (nodes w0))"
    and "nodes w1 = (snd (suppress (attached w0) [] (nodes w0)))
                      [temp := HTMLStyleElement (safeCompleteStylesheet ev)]"
    and "attached w1 = attached w0 @ [temp]"
  using assms
  by (auto simp: exportTry_def replaceAllStylesheets_def Let_def
      split: prod.splits sum.splits if_splits dest!: addMetadataPage_domD)

lemma exportAsPdf_dom:
  obtains saved ms where
    "nodes (snd (exportAsPdf this ev name options w)) = foldl restoreOne ms saved"
    "saved = fst (suppress (attached w) [] (nodes w @ [HTMLStyleElement []]))"
    "ms = (snd (suppress (attached w) [] (nodes w @ [HTMLStyleElement []])))
            [length (nodes w) := HTMLStyleElement (safeCompleteStylesheet ev)]"
    "attached (snd (exportAsPdf this ev name options w)) =
       remove1 (length (nodes w)) (attached w @ [length (nodes w)])"
proof -
  let ?w0 = "w\<lparr>nodes := nodes w @ [HTMLStyleElement []]\<rparr>"
  obtain saved tried w1 where t: "exportTry this ev name options (length (nodes w)) ?w0 = (saved, tried, w1)"
    by (metis prod_cases3)
  note d = exportTry_dom [OF t]
  have "nodes (snd (exportAsPdf this ev name options w)) = foldl restoreOne (nodes w1) saved"
    "attached (snd (exportAsPdf this ev name options w)) =
       remove1 (length (nodes w)) (attached w1)"
    using t d(3)
    by (auto simp: exportAsPdf_def Let_def restoreOriginalStylesheets_def
        split: sum.splits js_error.splits)
  with d that show thesis by simp
qed

lemma exportAsPdf_styles:
  assumes wf: "wellFormed w"
  shows "attached (snd (exportAsPdf this ev name options w)) = attached w"
    and "length (nodes (snd (exportAsPdf this ev name options w))) = Suc (length (nodes w))"
    and "k < length (nodes w) \<Longrightarrow>
         nodes (snd (exportAsPdf this ev name options w)) ! k =
           (if k \<in> set (attached w) then reenabled (nodes w ! k) else nodes w ! k)"
proof -
  let ?ns = "nodes w @ [HTMLStyleElement []]"
  let ?t = "length (nodes w)"
  from wf have dist: "distinct (attached w)" and rng: "\<forall>a \<in> set (attached w). a < ?t"
    by (simp_all add: wellFormed_def)
  then have nt: "?t \<notin> set (attached w)" by auto
  obtain saved ms where
    n: "nodes (snd (exportAsPdf this ev name options w)) = foldl restoreOne ms saved" and
    s: "saved = fst (suppress (attached w) [] ?ns)" and
    m: "ms = (snd (suppress (attached w) [] ?ns))[?t := HTMLStyleElement (safeCompleteStylesheet ev)]" and
    a: "attached (snd (exportAsPdf this ev name options w)) = remove1 ?t (attached w @ [?t])"
    by (rule exportAsPdf_dom)
  from a nt show "attached (snd (exportAsPdf this ev name options w)) = attached w"
    by (simp add: remove1_append)
  from n m show "length (nodes (snd (exportAsPdf this ev name options w))) = Suc ?t"
    by simp
  assume k: "k < ?t"
  have rng': "\<forall>a \<in> set (attached w). a < length ?ns" using rng by auto
  have len: "length ms = length ?ns" using m by simp
  have agree: "\<forall>a \<in> set (attached w). ms ! a = snd (suppress (attached w) [] ?ns) ! a"
    using m nt by (metis nth_list_update_neq)
  have "foldl restoreOne ms (fst (suppress (attached w) [] ?ns)) ! k =
      (if k \<in> set (attached w) then reenabled (?ns ! k) else ms ! k)"
    using restore_after_suppress [OF dist rng' len agree, of k] k by simp
  moreover have "?ns ! k = nodes w ! k" using k by (simp add: nth_append)
  moreover have "k \<notin> set (attached w) \<Longrightarrow> ms ! k = nodes w ! k"
    using m k by (simp add: suppress_untouched nth_append)
  ultimately show "nodes (snd (exportAsPdf this ev name options w)) ! k =
           (if k \<in> set (attached w) then reenabled (nodes w ! k) else nodes w ! k)"
    using n s by simp
qed

lemma restore_frame [simp]:
  "heap (restoreOriginalStylesheets saved t w) = heap w"
  "console (restoreOriginalStylesheets saved t w) = console w"
  "downloads (restoreOriginalStylesheets saved t w) = downloads w"
  "bodyClones (restoreOriginalStylesheets saved t w) = bodyClones w"
  by (simp_all add: restoreOriginalStylesheets_def Let_def)

lemma replace_frame [simp]:
  "heap (snd (replaceAllStylesheets ev saved t w)) = heap w"
  "console (snd (replaceAllStylesheets ev saved t w)) = console w"
  "downloads (snd (replaceAllStylesheets ev saved t w)) = downloads w"
  "bodyClones (snd (replaceAllStylesheets ev saved t w)) = bodyClones w"
  by (simp_all add: replaceAllStylesheets_def Let_def split: prod.splits)

lemma addMetadataPage_heap:
  "heap (snd (addMetadataPage this ev pdf w)) =
     (heap w)(exporter_annotations this := sort_key pageNumber (heap w (exporter_annotations this)))"
  by (simp add: addMetadataPage_def Let_def)

lemma exportTry_throws:
  "html2canvas ev = Inl thrown \<Longrightarrow>
   exportTry this ev name options t w =
     (fst (replaceAllStylesheets ev [] t w), Inl thrown,
      (snd (replaceAllStylesheets ev [] t w))
        \<lparr>bodyClones := bodyClones (snd (replaceAllStylesheets ev [] t w)) + 1\<rparr>)"
  by (simp add: exportTry_def Let_def case_prod_beta)

lemma exportAsPdf_throws:
  assumes "html2canvas ev = Inl (Error m)"
  shows "fst (exportAsPdf this ev name options w) = Inl (Error ''Failed to export PDF'')"
    and "console (snd (exportAsPdf this ev name options w)) =
           console w @ [''Error exporting PDF: '' @ m]"
    and "downloads (snd (exportAsPdf this ev name options w)) = downloads w"
    and "heap (snd (exportAsPdf this ev name options w)) = heap w"
  using assms
  by (simp_all add: exportAsPdf_def exportTry_throws Let_def case_prod_beta)

lemma wellFormed_worldA: "wellFormed worldA"
  by (simp add: wellFormed_def worldA_def)

lemma exportAsPdf_restores_enabled_document:
  assumes "wellFormed w"
    and "\<forall>a \<in> set (attached w). \<forall>h. nodes w ! a \<noteq> HTMLLinkElement h True"
  shows "attached (snd (exportAsPdf this ev name options w)) = attached w"
    and "\<forall>k < length (nodes w). nodes (snd (exportAsPdf this ev name options w)) ! k = nodes w ! k"
proof -
  show "attached (snd (exportAsPdf this ev name options w)) = attached w"
    using exportAsPdf_styles(1) [OF assms(1)] .
  show "\<forall>k < length (nodes w). nodes (snd (exportAsPdf this ev name options w)) ! k = nodes w ! k"
  proof (intro allI impI)
    fix k assume k: "k < length (nodes w)"
    show "nodes (snd (exportAsPdf this ev name options w)) ! k = nodes w ! k"
    proof (cases "k \<in> set (attached w)")
      case True
      with assms(2) have "reenabled (nodes w ! k) = nodes w ! k"
        by (cases "nodes w ! k") (auto simp: reenabled_def)
      with True k show ?thesis
        using exportAsPdf_styles(3) [OF assms(1), of k] by simp
    next
      case False
      with k show ?thesis
        using exportAsPdf_styles(3) [OF assms(1), of k] by simp
    qed
  qed
qed

lemma exportAsPdf_ok_heap:
  assumes "html2canvas ev = Inr c" "includeMetadata options"
  shows "heap (snd (exportAsPdf this ev name options w)) =
     (heap w)(exporter_annotations this := sort_key pageNumber (heap w (exporter_annotations this)))"
    and "fst (exportAsPdf this ev name options w) = Inr ()"
  using assms
  by (simp_all add: exportAsPdf_def exportTry_def Let_def addMetadataPage_heap case_prod_beta)

text \<open>
  Claim C1, at an input where the code departs from it. The document \<open>worldA\<close> has a
  stylesheet link that is switched off before the export (\<open>theme-dark.css\<close>, at address 2).
  The snapshot does not record the flag and the restoration sets \<open>disabled = false\<close> on
  every link, so after the cycle the link is switched on, whether the capture succeeded
  or threw. (For a document in which no link is switched off beforehand, the cycle does
  restore every element: \<open>exportAsPdf_restores_enabled_document\<close>.)
\<close>

theorem restore_enables_disabled_link:
  "2 \<in> set (attached worldA)
   \<and> nodes worldA ! 2 = HTMLLinkElement ''theme-dark.css'' True
   \<and> nodes (snd (exportAsPdf (createPdfExporter 0) envOk ''out'' pdfOptions worldA)) ! 2
       = HTMLLinkElement ''theme-dark.css'' False
   \<and> nodes (snd (exportAsPdf (createPdfExporter 0) envThrows ''out'' pdfOptions worldA)) ! 2
       = HTMLLinkElement ''theme-dark.css'' False"
proof -
  have "2 < length (nodes worldA)" "2 \<in> set (attached worldA)"
    "nodes worldA ! 2 = HTMLLinkElement ''theme-dark.css'' True"
    by (simp_all add: worldA_def)
  then show ?thesis
    using exportAsPdf_styles(3) [OF wellFormed_worldA, of 2]
    by (simp add: reenabled_def)
qed

text \<open>
  Claim C2. If the capture throws, \<open>exportAsPdf\<close> ends with the one error
  \<open>Failed to export PDF\<close> whatever was thrown, the thrown error goes to the console only,
  and the restoration has run by then: the injected stylesheet (the element allocated at
  address \<open>length (nodes w)\<close>) is out of the document, which lists the elements it listed
  before, every link is switched on and every inline style block has its text back.
\<close>

theorem exportAsPdf_capture_failure:
  "html2canvas ev = Inl (Error m) \<Longrightarrow> wellFormed w \<Longrightarrow>
   fst (exportAsPdf this ev name options w) = Inl (Error ''Failed to export PDF'')
   \<and> console (snd (exportAsPdf this ev name options w))
       = console w @ [''Error exporting PDF: '' @ m]
   \<and> attached (snd (exportAsPdf this ev name options w)) = attached w
   \<and> length (nodes w) \<notin> set (attached (snd (exportAsPdf this ev name options w)))
   \<and> (\<forall>a \<in> set (attached w).
         nodes (snd (exportAsPdf this ev name options w)) ! a = reenabled (nodes w ! a))"
proof -
  assume t: "html2canvas ev = Inl (Error m)" and wf: "wellFormed w"
  from wf have rng: "\<forall>a \<in> set (attached w). a < length (nodes w)"
    by (simp add: wellFormed_def)
  then have "length (nodes w) \<notin> set (attached w)" by auto
  moreover have "\<forall>a \<in> set (attached w).
         nodes (snd (exportAsPdf this ev name options w)) ! a = reenabled (nodes w ! a)"
    using exportAsPdf_styles(3) [OF wf] rng by simp
  ultimately show ?thesis
    using exportAsPdf_throws(1,2) [OF t] exportAsPdf_styles(1) [OF wf] by simp
qed

theorem exportAsPdf_capture_failure_witness:
  "html2canvas envThrows = Inl (Error ''unsupported color function'') \<and> wellFormed worldA
   \<and> fst (exportAsPdf (createPdfExporter 0) envThrows ''out'' pdfOptions worldA)
       = Inl (Error ''Failed to export PDF'')
   \<and> console (snd (exportAsPdf (createPdfExporter 0) envThrows ''out'' pdfOptions worldA))
       = [''Error exporting PDF: unsupported color function'']
   \<and> attached (snd (exportAsPdf (createPdfExporter 0) envThrows ''out'' pdfOptions worldA))
       = [0, 1, 2]
   \<and> nodes (snd (exportAsPdf (createPdfExporter 0) envThrows ''out'' pdfOptions worldA)) ! 1
       = HTMLStyleElement ''body { margin: 0 }''"
proof -
  have t: "html2canvas envThrows = Inl (Error ''unsupported color function'')"
    by (simp add: envThrows_def)
  show ?thesis
    using exportAsPdf_capture_failure [OF t wellFormed_worldA, of "createPdfExporter 0" "''out''" pdfOptions]
      t wellFormed_worldA
    by (simp add: worldA_def reenabled_def)
qed

text \<open>
  Claim C10. \<open>addMetadataPage\<close> replaces the array that the exporter refers to, which is
  the very array given to \<open>createPdfExporter\<close>, by its stable sort by ascending page
  number; so does a PDF export whose capture succeeds and whose options include the
  metadata page. The array holds the same annotations afterwards, in sorted order.
\<close>

theorem addMetadataPage_sorts_in_place:
  "heap (snd (addMetadataPage (createPdfExporter r) ev pdf w)) r = sort_key pageNumber (heap w r)
   \<and> (html2canvas ev = Inr c \<and> includeMetadata options \<longrightarrow>
        heap (snd (exportAsPdf (createPdfExporter r) ev name options w)) r
          = sort_key pageNumber (heap w r))
   \<and> sorted (map pageNumber (sort_key pageNumber (heap w r)))
   \<and> mset (sort_key pageNumber (heap w r)) = mset (heap w r)"
  using exportAsPdf_ok_heap(1) [of ev c options "createPdfExporter r" name w]
  by (simp add: addMetadataPage_heap createPdfExporter_def)

theorem addMetadataPage_sorts_in_place_witness:
  "html2canvas envOk = Inr \<lparr>canvas_width = 1600, canvas_height = 1200, canvas_dataURL = ''data:image/png''\<rparr>
   \<and> includeMetadata pdfOptions
   \<and> map ann_id (heap worldA 0) = [''a1'', ''b2'']
   \<and> map ann_id (heap (snd (exportAsPdf (createPdfExporter 0) envOk ''out'' pdfOptions worldA)) 0)
       = [''b2'', ''a1'']"
proof -
  have h: "html2canvas envOk = Inr \<lparr>canvas_width = 1600, canvas_height = 1200, canvas_dataURL = ''data:image/png''\<rparr>"
    "includeMetadata pdfOptions"
    by (simp_all add: envOk_def pdfOptions_def)
  have "heap worldA 0 = annotations stateAB" by (simp add: worldA_def heapAB_def)
  moreover have "map ann_id (annotations stateAB) = [''a1'', ''b2'']"
    "map ann_id (sort_key pageNumber (annotations stateAB)) = [''b2'', ''a1'']"
    by (simp_all add: ex_defs)
  ultimately show ?thesis
    using addMetadataPage_sorts_in_place [of 0 envOk _ worldA _ pdfOptions "''out''"] h
    by simp
qed

section \<open>Rounding to binary64\<close>

lemma ilog2_bounds_ge1:
  assumes "1 \<le> x"
  shows "2 powi ilog2 x \<le> x" and "x < 2 powi (ilog2 x + 1)"
proof -
  let ?n = "\<lfloor>x\<rfloor>"
  from assms have n: "0 < ?n" by linarith
  then have b: "1 \<le> bitlen ?n" by (simp add: bitlen_alt_def)
  have e: "ilog2 x = bitlen ?n - 1" using assms by (simp add: ilog2_def)
  from bitlen_bounds [OF n] have lo: "2 ^ nat (bitlen ?n - 1) \<le> ?n" and hi: "?n < 2 ^ nat (bitlen ?n)"
    by simp_all
  have "2 powi ilog2 x = (2::real) ^ nat (bitlen ?n - 1)"
    using b e by (simp add: power_int_def)
  also have "\<dots> = of_int (2 ^ nat (bitlen ?n - 1))" by simp
  also have "\<dots> \<le> of_int ?n" using lo by (simp only: of_int_le_iff)
  also have "\<dots> \<le> x" by simp
  finally show "2 powi ilog2 x \<le> x" .
  have "x < of_int (?n + 1)" by linarith
  also have "\<dots> \<le> of_int (2 ^ nat (bitlen ?n))" using hi by (simp only: of_int_le_iff)
  also have "\<dots> = (2::real) ^ nat (bitlen ?n)" by simp
  also have "\<dots> = 2 powi (ilog2 x + 1)" using b e by (simp add: power_int_def)
  finally show "x < 2 powi (ilog2 x + 1)" .
qed

lemma ilog2_bounds_lt1:
  assumes "0 < x" "x < 1"
  shows "2 powi ilog2 x \<le> x" and "x < 2 powi (ilog2 x + 1)"
proof -
  let ?z = "1 / x"
  let ?m = "\<lceil>?z\<rceil> - 1"
  let ?k = "bitlen ?m"
  from assms have z: "1 < ?z" by simp
  then have m: "0 < ?m" by linarith
  then have k: "1 \<le> ?k" by (simp add: bitlen_alt_def)
  have e: "ilog2 x = - ?k" using assms by (simp add: ilog2_def)
  from bitlen_bounds [OF m] have lo: "2 ^ nat (?k - 1) \<le> ?m" and hi: "?m < 2 ^ nat ?k"
    by simp_all
  have mz: "of_int ?m < ?z" by linarith
  have zm: "?z \<le> of_int (?m + 1)" by linarith
  have "?z \<le> of_int (?m + 1)" by (rule zm)
  also have "\<dots> \<le> of_int (2 ^ nat ?k)" using hi by (simp only: of_int_le_iff)
  also have "\<dots> = (2::real) ^ nat ?k" by simp
  finally have zk: "?z \<le> 2 ^ nat ?k" .
  have "(2::real) ^ nat (?k - 1) = of_int (2 ^ nat (?k - 1))" by simp
  also have "\<dots> \<le> of_int ?m" using lo by (simp only: of_int_le_iff)
  also have "\<dots> < ?z" by (rule mz)
  finally have kz: "2 ^ nat (?k - 1) < ?z" .
  have p1: "2 powi ilog2 x = 1 / (2::real) ^ nat ?k"
    using k e by (simp add: power_int_def field_simps)
  have p2: "2 powi (ilog2 x + 1) = 1 / (2::real) ^ nat (?k - 1)"
    using k e by (simp add: power_int_def field_simps)
  from zk assms show "2 powi ilog2 x \<le> x"
    unfolding p1 by (simp add: field_simps)
  from kz assms show "x < 2 powi (ilog2 x + 1)"
    unfolding p2 by (simp add: field_simps)
qed

lemma ilog2_bounds:
  assumes "0 < x"
  shows "2 powi ilog2 x \<le> x" and "x < 2 powi (ilog2 x + 1)"
  using assms ilog2_bounds_ge1 [of x] ilog2_bounds_lt1 [of x]
  by (cases "1 \<le> x"; simp)+

lemma ilog2_unique:
  assumes "2 powi e \<le> x" "x < 2 powi (e + 1)"
  shows "ilog2 x = e"
proof -
  have x: "0 < x" using assms(1) by (smt (verit) zero_less_power_int)
  note b = ilog2_bounds [OF x]
  have "(2::real) powi e < 2 powi (ilog2 x + 1)" using assms(1) b(2) by linarith
  then have 1: "e < ilog2 x + 1"
    using power_int_increasing [of "ilog2 x + 1" e "2::real"] by (cases "e < ilog2 x + 1") auto
  have "(2::real) powi ilog2 x < 2 powi (e + 1)" using assms(2) b(1) by linarith
  then have 2: "ilog2 x < e + 1"
    using power_int_increasing [of "e + 1" "ilog2 x" "2::real"] by (cases "ilog2 x < e + 1") auto
  from 1 2 show ?thesis by simp
qed


lemma round_half_even_error: "\<bar>of_int (round_half_even y) - y\<bar> \<le> 1 / 2"
  unfolding round_half_even_def Let_def by (auto; linarith)

lemma round_half_even_of_int [simp]: "round_half_even (of_int n) = n"
  by (simp add: round_half_even_def)

lemma round_half_even_mono:
  assumes "y \<le> z"
  shows "round_half_even y \<le> round_half_even z"
proof (cases "\<lfloor>y\<rfloor> < \<lfloor>z\<rfloor>")
  case True
  have "round_half_even y \<le> \<lfloor>y\<rfloor> + 1"
    by (simp add: round_half_even_def Let_def)
  moreover have "\<lfloor>z\<rfloor> \<le> round_half_even z"
    by (simp add: round_half_even_def Let_def)
  ultimately show ?thesis using True by linarith
next
  case False
  with assms have eq: "\<lfloor>y\<rfloor> = \<lfloor>z\<rfloor>"
    by (meson floor_mono le_less)
  with assms have "y - of_int \<lfloor>y\<rfloor> \<le> z - of_int \<lfloor>z\<rfloor>" by simp
  then show ?thesis
    unfolding round_half_even_def Let_def eq by auto
qed

lemma round_half_even_ge: "of_int n \<le> y \<Longrightarrow> n \<le> round_half_even y"
  using round_half_even_mono [of "of_int n" y] by simp

lemma round_half_even_le: "y \<le> of_int n \<Longrightarrow> round_half_even y \<le> n"
  using round_half_even_mono [of y "of_int n"] by simp

lemma binary64_0 [simp]: "binary64 0 = 0"
  by (simp add: binary64_def)

lemma binary64_minus: "binary64 (- x) = - binary64 x"
  by (simp add: binary64_def Let_def sgn_minus)

lemma binary64_pos:
  "0 < x \<Longrightarrow>
   binary64 x = of_int (round_half_even (x / 2 powi (ilog2 x - 52))) * 2 powi (ilog2 x - 52)"
  by (simp add: binary64_def Let_def)

lemma significand_range:
  assumes "0 < x"
  shows "2 ^ 52 \<le> x / 2 powi (ilog2 x - 52)" and "x / 2 powi (ilog2 x - 52) < 2 ^ 53"
proof -
  let ?e = "ilog2 x"
  have u: "(0::real) < 2 powi (?e - 52)" by simp
  have a: "(2::real) powi ?e = 2 ^ 52 * 2 powi (?e - 52)"
    by (simp add: power_int_diff)
  have b: "(2::real) powi (?e + 1) = 2 ^ 53 * 2 powi (?e - 52)"
    by (simp add: power_int_diff power_int_add)
  from ilog2_bounds(1) [OF assms] a u show "2 ^ 52 \<le> x / 2 powi (?e - 52)"
    by (simp add: pos_le_divide_eq)
  from ilog2_bounds(2) [OF assms] b u show "x / 2 powi (?e - 52) < 2 ^ 53"
    by (simp add: pos_divide_less_eq)
qed

lemma rounded_significand_range:
  assumes "0 < x"
  shows "2 ^ 52 \<le> round_half_even (x / 2 powi (ilog2 x - 52))"
    and "round_half_even (x / 2 powi (ilog2 x - 52)) \<le> 2 ^ 53"
proof -
  have "of_int (2 ^ 52) \<le> x / 2 powi (ilog2 x - 52)"
    using significand_range(1) [OF assms] by simp
  then show "2 ^ 52 \<le> round_half_even (x / 2 powi (ilog2 x - 52))"
    by (rule round_half_even_ge)
  have "x / 2 powi (ilog2 x - 52) \<le> of_int (2 ^ 53)"
    using significand_range(2) [OF assms] by simp
  then show "round_half_even (x / 2 powi (ilog2 x - 52)) \<le> 2 ^ 53"
    by (rule round_half_even_le)
qed







lemma binary64_exact_pos:
  assumes "2 ^ 52 \<le> n" "n \<le> 2 ^ 53"
  shows "binary64 (of_int n * 2 powi k) = of_int n * 2 powi k"
proof -
  let ?x = "of_int n * (2::real) powi k"
  have n0: "(0::real) < of_int n" using assms(1) by (smt (verit) of_int_0_less_iff zero_less_power)
  then have x: "0 < ?x" by simp
  have lo: "(2::real) ^ 52 \<le> of_int n"
    using assms(1) by (metis of_int_le_iff of_int_numeral of_int_power)
  show ?thesis
  proof (cases "n = 2 ^ 53")
    case False
    with assms(2) have "n < 2 ^ 53" by simp
    then have hi: "of_int n < (2::real) ^ 53"
      by (metis of_int_less_iff of_int_numeral of_int_power)
    have "(2::real) powi (k + 52) = 2 ^ 52 * 2 powi k"
      by (simp add: power_int_add)
    also have "\<dots> \<le> ?x" using lo by (simp add: mult_right_mono)
    finally have a: "2 powi (k + 52) \<le> ?x" .
    have "?x < 2 ^ 53 * 2 powi k" using hi by (simp add: mult_strict_right_mono)
    also have "\<dots> = 2 powi (k + 52 + 1)"
      by (simp add: power_int_add)
    finally have b: "?x < 2 powi (k + 52 + 1)" .
    have e: "ilog2 ?x = k + 52" using a b by (rule ilog2_unique)
    show ?thesis
      unfolding binary64_pos [OF x] e by simp
  next
    case True
    have xe: "?x = 2 powi (k + 53)"
      using True by (simp add: power_int_add)
    have "(2::real) powi (k + 53) < 2 powi (k + 53 + 1)"
      by (simp add: power_int_strict_increasing)
    then have e: "ilog2 ?x = k + 53"
      unfolding xe by (intro ilog2_unique) simp_all
    have "?x / 2 powi (k + 53 - 52) = of_int (2 ^ 52)"
      unfolding xe by (simp add: power_int_diff power_int_add)
    then have "round_half_even (?x / 2 powi (k + 53 - 52)) = 2 ^ 52"
      by (simp only: round_half_even_of_int)
    then have "binary64 ?x = of_int (2 ^ 52) * 2 powi (k + 53 - 52)"
      unfolding binary64_pos [OF x] e by simp
    also have "\<dots> = ?x"
      unfolding xe by (simp add: power_int_diff power_int_add)
    finally show ?thesis .
  qed
qed

lemma binary64_idem: "binary64 (binary64 x) = binary64 x"
proof -
  have pos: "binary64 (binary64 y) = binary64 y" if "0 < y" for y
    unfolding binary64_pos [OF that]
    using rounded_significand_range [OF that] by (rule binary64_exact_pos)
  consider "0 < x" | "x = 0" | "x < 0" by linarith
  then show ?thesis
  proof cases
    case 1
    then show ?thesis by (rule pos)
  next
    case 2
    then show ?thesis by simp
  next
    case 3
    then have "binary64 (binary64 (- x)) = binary64 (- x)" by (intro pos) simp
    then show ?thesis by (simp add: binary64_minus)
  qed
qed

lemma is_double_binary64 [simp]: "is_double (binary64 x)"
  by (simp add: is_double_def binary64_idem)

lemma binary64_1 [simp]: "binary64 1 = 1"
  using binary64_exact_pos [of "2 ^ 52" "- 52"] by simp



lemma binary64_error_pos:
  assumes "0 < x"
  shows "\<bar>binary64 x - x\<bar> \<le> x / 2 ^ 53"
proof -
  let ?u = "(2::real) powi (ilog2 x - 52)"
  let ?m = "x / ?u"
  have u: "0 < ?u" by simp
  have xm: "x = ?m * ?u" by simp
  have "binary64 x - x = (of_int (round_half_even ?m) - ?m) * ?u"
    unfolding binary64_pos [OF assms] by (simp add: left_diff_distrib)
  then have "\<bar>binary64 x - x\<bar> = \<bar>of_int (round_half_even ?m) - ?m\<bar> * ?u"
    using u by (simp add: abs_mult)
  also have "\<dots> \<le> 1 / 2 * ?u"
    using round_half_even_error [of ?m] u by (intro mult_right_mono) simp_all
  also have "\<dots> \<le> x / 2 ^ 53"
  proof -
    have "2 ^ 52 * ?u \<le> x"
      using significand_range(1) [OF assms] u by (simp add: pos_le_divide_eq)
    then show ?thesis by simp
  qed
  finally show ?thesis .
qed

lemma binary64_error: "\<bar>binary64 x - x\<bar> \<le> \<bar>x\<bar> / 2 ^ 53"
proof -
  consider "0 < x" | "x = 0" | "x < 0" by linarith
  then show ?thesis
  proof cases
    case 1
    with binary64_error_pos [OF 1] show ?thesis by simp
  next
    case 2
    then show ?thesis by simp
  next
    case 3
    then have "0 < - x" by simp
    from binary64_error_pos [OF this] 3 show ?thesis
      by (simp add: binary64_minus abs_minus_commute)
  qed
qed

lemma mul_div_round_trip_error:
  assumes "w \<noteq> 0"
  shows "\<bar>js_div (js_mul r w) w - r\<bar> \<le> \<bar>r\<bar> / 2 ^ 51"
proof -
  let ?a = "binary64 (r * w)"
  have 1: "\<bar>?a - r * w\<bar> \<le> \<bar>r * w\<bar> / 2 ^ 53" by (rule binary64_error)
  have "?a / w - r = (?a - r * w) / w" using assms by (simp add: field_simps)
  then have "\<bar>?a / w - r\<bar> = \<bar>?a - r * w\<bar> / \<bar>w\<bar>" by simp
  also have "\<dots> \<le> (\<bar>r * w\<bar> / 2 ^ 53) / \<bar>w\<bar>"
    using 1 by (intro divide_right_mono) simp_all
  also have "\<dots> = \<bar>r\<bar> / 2 ^ 53" using assms by (simp add: abs_mult)
  finally have 2: "\<bar>?a / w - r\<bar> \<le> \<bar>r\<bar> / 2 ^ 53" .
  then have 3: "\<bar>?a / w\<bar> \<le> \<bar>r\<bar> + \<bar>r\<bar> / 2 ^ 53" by linarith
  have "\<bar>binary64 (?a / w) - ?a / w\<bar> \<le> \<bar>?a / w\<bar> / 2 ^ 53" by (rule binary64_error)
  also have "\<dots> \<le> (\<bar>r\<bar> + \<bar>r\<bar> / 2 ^ 53) / 2 ^ 53"
    using 3 by (intro divide_right_mono) simp_all
  finally have 4: "\<bar>binary64 (?a / w) - ?a / w\<bar> \<le> (\<bar>r\<bar> + \<bar>r\<bar> / 2 ^ 53) / 2 ^ 53" .
  have "\<bar>binary64 (?a / w) - r\<bar> \<le> \<bar>binary64 (?a / w) - ?a / w\<bar> + \<bar>?a / w - r\<bar>"
    by linarith
  also have "\<dots> \<le> (\<bar>r\<bar> + \<bar>r\<bar> / 2 ^ 53) / 2 ^ 53 + \<bar>r\<bar> / 2 ^ 53"
    using 2 4 by linarith
  also have "\<dots> \<le> \<bar>r\<bar> / 2 ^ 51"
    by (simp add: field_simps)
  finally show ?thesis by (simp add: js_div_def js_mul_def)
qed

lemma mul_div_round_trip_exact:
  assumes "w \<noteq> 0" "is_double r" "is_double (r * w)"
  shows "js_div (js_mul r w) w = r"
  using assms by (simp add: js_div_def js_mul_def is_double_def)

section \<open>The coordinate normalizer\<close>

lemmas number_eval = binary64_def ilog2_def round_half_even_def Let_def compute_bitlen
  js_sub_def js_div_def js_mul_def Math_abs_def Math_min_def Math_round_def

lemmas viewer_eval = viewerWith_def viewerA_def dragRect_def narrowDrag_def minimalDrag_def
  overflowDrag_def zoomDrag_def page1000x800_def page800x640_def

lemma handleMouseUp_reject:
  assumes "creatingRect v = Some r" "pageInfo v = Some p"
    and "Math_abs (js_sub (currentX r) (startX r)) < 20 \<or> Math_abs (js_sub (currentY r) (startY r)) < 20"
  shows "handleMouseUp v = (v\<lparr>creatingRect := None\<rparr>, [])"
  using assms by (simp add: handleMouseUp_def Let_def)

lemma handleMouseUp_accept:
  assumes "creatingRect v = Some r" "pageInfo v = Some p"
    and "\<not> (Math_abs (js_sub (currentX r) (startX r)) < 20 \<or> Math_abs (js_sub (currentY r) (startY r)) < 20)"
  shows "handleMouseUp v =
     (v\<lparr>creatingRect := None\<rparr>,
      [OnAnnotationCreate
         (normalizeRect (Math_min (startX r) (currentX r)) (Math_min (startY r) (currentY r))
            (Math_abs (js_sub (currentX r) (startX r))) (Math_abs (js_sub (currentY r) (startY r)))
            p (viewer_pageNumber v)),
       OnCreatingAnnotationChange False])"
  using assms by (simp add: handleMouseUp_def Let_def)

lemma dragEnd_reject:
  assumes "creatingRect v = Some r" "pageInfo v = Some p"
    and "Math_abs (js_sub (currentX r) (startX r)) < 20 \<or> Math_abs (js_sub (currentY r) (startY r)) < 20"
  shows "snd (dragEnd newId now v s) = s"
  using handleMouseUp_reject [OF assms] by (simp add: dragEnd_def)

lemma dragEnd_accept:
  assumes "creatingRect v = Some r" "pageInfo v = Some p"
    and "\<not> (Math_abs (js_sub (currentX r) (startX r)) < 20 \<or> Math_abs (js_sub (currentY r) (startY r)) < 20)"
  shows "annotations (snd (dragEnd newId now v s)) =
     annotations s @
       [newAnnotation
          (normalizeRect (Math_min (startX r) (currentX r)) (Math_min (startY r) (currentY r))
            (Math_abs (js_sub (currentX r) (startX r))) (Math_abs (js_sub (currentY r) (startY r)))
            p (viewer_pageNumber v)) newId now]"
  using handleMouseUp_accept [OF assms]
  by (simp add: dragEnd_def createAnnotation_def setIsCreating_def Let_def)

lemma binary64_200: "binary64 200 = 200" by (simp add: number_eval)
lemma binary64_100: "binary64 100 = 100" by (simp add: number_eval)
lemma binary64_20: "binary64 20 = 20" by (simp add: number_eval)
lemma binary64_19: "binary64 19 = 19" by (simp add: number_eval)
lemma binary64_eighth: "binary64 (1 / 8) = 1 / 8" by (simp add: number_eval)

lemma newAnnotation_record:
  "newAnnotation
     \<lparr>rect_x = a, rect_y = b, rect_width = c, rect_height = d, pageNumber = n,
      componentLabel = l, cssSelector = q, description = e\<rparr> i t =
   \<lparr>rect_x = a, rect_y = b, rect_width = c, rect_height = d, pageNumber = n,
    componentLabel = l, cssSelector = q, description = e,
    ann_id = i, createdAt = t, updatedAt = t\<rparr>"
  by (simp add: newAnnotation_def annotationData.defs annotation.defs)

text \<open>
  Claim C4. At the end of a drag on a rendered page, a gesture whose pixel width or height
  is below 20 stores no annotation, one of exactly 20 by 20 pixels stores exactly one, and
  the annotation that the store then holds last has \<open>x = min(startX, currentX) / pageWidth\<close>,
  \<open>y = min(startY, currentY) / pageHeight\<close>, \<open>width = |currentX - startX| / pageWidth\<close> and
  \<open>height = |currentY - startY| / pageHeight\<close>, every operation being the one of
  JavaScript numbers, together with the page number of the viewer, an empty label and
  selector, the fresh id and the creation time. The drag from (100, 100) to (300, 200) on
  a page of 1000 by 800 stores the doubles written \<open>0.1\<close>, \<open>0.125\<close>, \<open>0.2\<close> and \<open>0.125\<close>.
\<close>

theorem dragEnd_minimum_size_and_fractions:
  "creatingRect v = Some r \<Longrightarrow> pageInfo v = Some p \<Longrightarrow>
   0 < info_width p \<Longrightarrow> 0 < info_height p \<Longrightarrow>
   (Math_abs (js_sub (currentX r) (startX r)) < 20 \<or> Math_abs (js_sub (currentY r) (startY r)) < 20
      \<longrightarrow> annotations (snd (dragEnd newId now v s)) = annotations s)
   \<and> (Math_abs (js_sub (currentX r) (startX r)) = 20 \<and> Math_abs (js_sub (currentY r) (startY r)) = 20
      \<longrightarrow> length (annotations (snd (dragEnd newId now v s))) = length (annotations s) + 1)
   \<and> (\<not> (Math_abs (js_sub (currentX r) (startX r)) < 20 \<or> Math_abs (js_sub (currentY r) (startY r)) < 20)
      \<longrightarrow> annotations (snd (dragEnd newId now v s)) =
            annotations s @
              [\<lparr>rect_x = js_div (Math_min (startX r) (currentX r)) (info_width p),
                rect_y = js_div (Math_min (startY r) (currentY r)) (info_height p),
                rect_width = js_div (Math_abs (js_sub (currentX r) (startX r))) (info_width p),
                rect_height = js_div (Math_abs (js_sub (currentY r) (startY r))) (info_height p),
                pageNumber = viewer_pageNumber v,
                componentLabel = [], cssSelector = [], description = None,
                ann_id = newId, createdAt = now, updatedAt = now\<rparr>])
   \<and> annotations (snd (dragEnd newId now viewerA initialState)) =
         [\<lparr>rect_x = binary64 (1 / 10), rect_y = binary64 (125 / 1000),
           rect_width = binary64 (2 / 10), rect_height = binary64 (125 / 1000),
           pageNumber = 1, componentLabel = [], cssSelector = [], description = None,
           ann_id = newId, createdAt = now, updatedAt = now\<rparr>]
   \<and> rect_x (last (annotations (snd (dragEnd newId now viewerA initialState)))) = binary64 (1 / 10)
   \<and> rect_y (last (annotations (snd (dragEnd newId now viewerA initialState)))) = binary64 (125 / 1000)
   \<and> rect_width (last (annotations (snd (dragEnd newId now viewerA initialState)))) = binary64 (2 / 10)
   \<and> rect_height (last (annotations (snd (dragEnd newId now viewerA initialState)))) = binary64 (125 / 1000)"
proof -
  assume c: "creatingRect v = Some r" and p: "pageInfo v = Some p"
  have 1: "Math_abs (js_sub (currentX r) (startX r)) < 20 \<or> Math_abs (js_sub (currentY r) (startY r)) < 20
      \<longrightarrow> annotations (snd (dragEnd newId now v s)) = annotations s"
    using dragEnd_reject [OF c p] by simp
  have 3: "\<not> (Math_abs (js_sub (currentX r) (startX r)) < 20 \<or> Math_abs (js_sub (currentY r) (startY r)) < 20)
      \<longrightarrow> annotations (snd (dragEnd newId now v s)) =
            annotations s @
              [\<lparr>rect_x = js_div (Math_min (startX r) (currentX r)) (info_width p),
                rect_y = js_div (Math_min (startY r) (currentY r)) (info_height p),
                rect_width = js_div (Math_abs (js_sub (currentX r) (startX r))) (info_width p),
                rect_height = js_div (Math_abs (js_sub (currentY r) (startY r))) (info_height p),
                pageNumber = viewer_pageNumber v,
                componentLabel = [], cssSelector = [], description = None,
                ann_id = newId, createdAt = now, updatedAt = now\<rparr>]"
    using dragEnd_accept [OF c p] by (simp add: normalizeRect_def newAnnotation_record)
  have 2: "Math_abs (js_sub (currentX r) (startX r)) = 20 \<and> Math_abs (js_sub (currentY r) (startY r)) = 20
      \<longrightarrow> length (annotations (snd (dragEnd newId now v s))) = length (annotations s) + 1"
    using dragEnd_accept [OF c p, of newId now s] by simp
  have cA: "creatingRect viewerA = Some dragRect" and pA: "pageInfo viewerA = Some page1000x800"
    by (simp_all add: viewerA_def)
  have wA: "\<not> (Math_abs (js_sub (currentX dragRect) (startX dragRect)) < 20
              \<or> Math_abs (js_sub (currentY dragRect) (startY dragRect)) < 20)"
    by (simp add: dragRect_def js_sub_def Math_abs_def binary64_200 binary64_100)
  have 4: "annotations (snd (dragEnd newId now viewerA initialState)) =
         [\<lparr>rect_x = binary64 (1 / 10), rect_y = binary64 (125 / 1000),
           rect_width = binary64 (2 / 10), rect_height = binary64 (125 / 1000),
           pageNumber = 1, componentLabel = [], cssSelector = [], description = None,
           ann_id = newId, createdAt = now, updatedAt = now\<rparr>]"
    using dragEnd_accept [OF cA pA wA, of newId now initialState]
    by (simp add: normalizeRect_def dragRect_def page1000x800_def viewerA_def initialState_def
        js_sub_def js_div_def Math_abs_def Math_min_def binary64_200 binary64_100
        newAnnotation_record)
  have 5: "rect_x (last (annotations (snd (dragEnd newId now viewerA initialState)))) = binary64 (1 / 10)"
    "rect_y (last (annotations (snd (dragEnd newId now viewerA initialState)))) = binary64 (125 / 1000)"
    "rect_width (last (annotations (snd (dragEnd newId now viewerA initialState)))) = binary64 (2 / 10)"
    "rect_height (last (annotations (snd (dragEnd newId now viewerA initialState)))) = binary64 (125 / 1000)"
    unfolding 4 by simp_all
  from 1 2 3 4 5 show ?thesis by blast
qed

theorem dragEnd_minimum_size_and_fractions_witness:
  "creatingRect (viewerWith minimalDrag) = Some minimalDrag
   \<and> creatingRect (viewerWith narrowDrag) = Some narrowDrag
   \<and> pageInfo (viewerWith minimalDrag) = Some page1000x800
   \<and> pageInfo (viewerWith narrowDrag) = Some page1000x800
   \<and> 0 < info_width page1000x800 \<and> 0 < info_height page1000x800
   \<and> Math_abs (js_sub (currentX minimalDrag) (startX minimalDrag)) = 20
   \<and> Math_abs (js_sub (currentY minimalDrag) (startY minimalDrag)) = 20
   \<and> Math_abs (js_sub (currentX narrowDrag) (startX narrowDrag)) < 20
   \<and> length (annotations (snd (dragEnd ''c3'' 1002 (viewerWith minimalDrag) stateAB))) = 3
   \<and> annotations (snd (dragEnd ''c3'' 1002 (viewerWith minimalDrag) stateAB)) =
        annotations stateAB @
          [\<lparr>rect_x = binary64 (1 / 10), rect_y = 1 / 8,
            rect_width = binary64 (1 / 50), rect_height = binary64 (1 / 40),
            pageNumber = 1, componentLabel = [], cssSelector = [], description = None,
            ann_id = ''c3'', createdAt = 1002, updatedAt = 1002\<rparr>]
   \<and> annotations (snd (dragEnd ''c3'' 1002 (viewerWith narrowDrag) stateAB)) = annotations stateAB"
proof -
  have h: "creatingRect (viewerWith minimalDrag) = Some minimalDrag"
    "creatingRect (viewerWith narrowDrag) = Some narrowDrag"
    "pageInfo (viewerWith minimalDrag) = Some page1000x800"
    "pageInfo (viewerWith narrowDrag) = Some page1000x800"
    "0 < info_width page1000x800" "0 < info_height page1000x800"
    by (simp_all add: viewer_eval)
  have m: "Math_abs (js_sub (currentX minimalDrag) (startX minimalDrag)) = 20"
    "Math_abs (js_sub (currentY minimalDrag) (startY minimalDrag)) = 20"
    "Math_abs (js_sub (currentX narrowDrag) (startX narrowDrag)) < 20"
    by (simp_all add: minimalDrag_def narrowDrag_def js_sub_def Math_abs_def binary64_20 binary64_19)
  have l: "length (annotations stateAB) = 2" by (simp add: ex_defs)
  have q: "js_div (Math_min (startX minimalDrag) (currentX minimalDrag)) (info_width page1000x800)
        = binary64 (1 / 10)"
    "js_div (Math_min (startY minimalDrag) (currentY minimalDrag)) (info_height page1000x800) = 1 / 8"
    "js_div 20 (info_width page1000x800) = binary64 (1 / 50)"
    "js_div 20 (info_height page1000x800) = binary64 (1 / 40)"
    "viewer_pageNumber (viewerWith minimalDrag) = 1"
    by (simp_all add: viewer_eval js_div_def Math_min_def binary64_eighth)
  note t1 = dragEnd_minimum_size_and_fractions
        [OF h(1) h(3) h(5) h(6), of "''c3''" 1002 stateAB]
  note t2 = dragEnd_minimum_size_and_fractions
        [OF h(2) h(4) h(5) h(6), of "''c3''" 1002 stateAB]
  from t1 m(1,2) have a: "length (annotations (snd (dragEnd ''c3'' 1002 (viewerWith minimalDrag) stateAB)))
      = length (annotations stateAB) + 1"
    by blast
  from t1 m(1,2) have b: "annotations (snd (dragEnd ''c3'' 1002 (viewerWith minimalDrag) stateAB)) =
        annotations stateAB @
          [\<lparr>rect_x = binary64 (1 / 10), rect_y = 1 / 8,
            rect_width = binary64 (1 / 50), rect_height = binary64 (1 / 40),
            pageNumber = 1, componentLabel = [], cssSelector = [], description = None,
            ann_id = ''c3'', createdAt = 1002, updatedAt = 1002\<rparr>]"
    by (simp add: q)
  from t2 m(3) have c: "annotations (snd (dragEnd ''c3'' 1002 (viewerWith narrowDrag) stateAB))
      = annotations stateAB"
    by blast
  from h m a b c l show ?thesis by simp
qed






lemma newAnnotation_rect [simp]:
  "rect_x (newAnnotation d i t) = rect_x d"
  "rect_y (newAnnotation d i t) = rect_y d"
  "rect_width (newAnnotation d i t) = rect_width d"
  "rect_height (newAnnotation d i t) = rect_height d"
  by (simp_all add: newAnnotation_def annotationData.defs annotation.defs)




lemma handleMouseUp_viewerA:
  "snd (handleMouseUp viewerA) =
     [OnAnnotationCreate (normalizeRect 100 100 200 100 page1000x800 1),
      OnCreatingAnnotationChange False]"
  by (simp add: handleMouseUp_def viewer_eval js_sub_def Math_abs_def Math_min_def
      binary64_200 binary64_100 Let_def)


text \<open>
  Claim C8, as the code has it. The claim says that rendering a stored rectangle at other
  page dimensions and normalising the pixels again reproduces the fractions exactly. The
  two operations are a multiplication and a division of doubles, each rounded. The drag
  \<open>zoomDrag\<close> on the page of 1000 by 800 stores \<open>x = 0.123\<close>; on the page of 800 by 640
  the overlay is placed at the double \<open>98.4\<close>, and \<open>98.4 / 800\<close> is the next double after
  \<open>0.123\<close>.
\<close>

theorem renormalize_counterexample:
  "snd (handleMouseUp (viewerWith zoomDrag)) =
     [OnAnnotationCreate zoomAnnotation, OnCreatingAnnotationChange False]
   \<and> rect_x zoomAnnotation = binary64 (123 / 1000)
   \<and> style_left (overlayStyle zoomAnnotation page800x640) = binary64 (984 / 10)
   \<and> rect_x (renormalize zoomAnnotation page800x640) \<noteq> rect_x zoomAnnotation"
proof -
  have "snd (handleMouseUp (viewerWith zoomDrag)) =
     [OnAnnotationCreate zoomAnnotation, OnCreatingAnnotationChange False]"
    by (simp add: handleMouseUp_def viewer_eval js_sub_def Math_abs_def Math_min_def
        binary64_200 binary64_100 Let_def zoomAnnotation_def)
  moreover have "rect_x zoomAnnotation = binary64 (123 / 1000)"
    by (simp add: zoomAnnotation_def normalizeRect_def page1000x800_def js_div_def)
  moreover have "binary64 (binary64 (123 / 1000) * 800) = binary64 (984 / 10)"
    by (simp add: number_eval)
  moreover have "binary64 (binary64 (984 / 10) / 800) \<noteq> binary64 (123 / 1000)"
    by (simp add: number_eval)
  ultimately show ?thesis
    by (simp add: renormalize_def overlayStyle_def normalizeRect_def page800x640_def
        js_div_def js_mul_def Let_def)
qed

lemma renormalize_fields:
  "rect_x (renormalize a p) = js_div (js_mul (rect_x a) (info_width p)) (info_width p)"
  "rect_y (renormalize a p) = js_div (js_mul (rect_y a) (info_height p)) (info_height p)"
  "rect_width (renormalize a p) = js_div (js_mul (rect_width a) (info_width p)) (info_width p)"
  "rect_height (renormalize a p) = js_div (js_mul (rect_height a) (info_height p)) (info_height p)"
  "pageNumber (renormalize a p) = pageNumber a"
  by (simp_all add: renormalize_def overlayStyle_def normalizeRect_def Let_def)

text \<open>
  Claim C8, amended. For non-zero page dimensions, and as long as neither the product nor
  the quotient underflows or overflows, rendering an annotation and normalising the pixel
  box again gives back each fraction up to rounding: the result differs from the fraction
  by at most the fraction's magnitude divided by \<open>2^51\<close>, and it is the fraction itself
  whenever the fraction is a double and its product with the page dimension is a double
  too, that is whenever the multiplication does not round.
\<close>

theorem renormalize_near:
  "info_width p \<noteq> 0 \<Longrightarrow> info_height p \<noteq> 0 \<Longrightarrow>
   roundTripInRange (rect_x a) (info_width p) \<Longrightarrow>
   roundTripInRange (rect_y a) (info_height p) \<Longrightarrow>
   roundTripInRange (rect_width a) (info_width p) \<Longrightarrow>
   roundTripInRange (rect_height a) (info_height p) \<Longrightarrow>
   \<bar>rect_x (renormalize a p) - rect_x a\<bar> \<le> \<bar>rect_x a\<bar> / 2 ^ 51
   \<and> \<bar>rect_y (renormalize a p) - rect_y a\<bar> \<le> \<bar>rect_y a\<bar> / 2 ^ 51
   \<and> \<bar>rect_width (renormalize a p) - rect_width a\<bar> \<le> \<bar>rect_width a\<bar> / 2 ^ 51
   \<and> \<bar>rect_height (renormalize a p) - rect_height a\<bar> \<le> \<bar>rect_height a\<bar> / 2 ^ 51
   \<and> (is_double (rect_x a) \<and> is_double (rect_x a * info_width p)
        \<longrightarrow> rect_x (renormalize a p) = rect_x a)
   \<and> (is_double (rect_y a) \<and> is_double (rect_y a * info_height p)
        \<longrightarrow> rect_y (renormalize a p) = rect_y a)
   \<and> (is_double (rect_width a) \<and> is_double (rect_width a * info_width p)
        \<longrightarrow> rect_width (renormalize a p) = rect_width a)
   \<and> (is_double (rect_height a) \<and> is_double (rect_height a * info_height p)
        \<longrightarrow> rect_height (renormalize a p) = rect_height a)"
  unfolding renormalize_fields
  using mul_div_round_trip_error [of "info_width p"] mul_div_round_trip_error [of "info_height p"]
    mul_div_round_trip_exact [of "info_width p"] mul_div_round_trip_exact [of "info_height p"]
  by blast

theorem renormalize_near_witness:
  "info_width page800x640 \<noteq> 0 \<and> info_height page800x640 \<noteq> 0
   \<and> roundTripInRange (rect_x draftA) (info_width page800x640)
   \<and> roundTripInRange (rect_y draftA) (info_height page800x640)
   \<and> roundTripInRange (rect_width draftA) (info_width page800x640)
   \<and> roundTripInRange (rect_height draftA) (info_height page800x640)
   \<and> roundTripInRange (rect_x zoomAnnotation) (info_width page800x640)
   \<and> is_double (rect_x draftA) \<and> is_double (rect_x draftA * info_width page800x640)
   \<and> is_double (rect_y draftA) \<and> is_double (rect_y draftA * info_height page800x640)
   \<and> is_double (rect_width draftA) \<and> is_double (rect_width draftA * info_width page800x640)
   \<and> is_double (rect_height draftA) \<and> is_double (rect_height draftA * info_height page800x640)
   \<and> rect_x (renormalize draftA page800x640) = 1 / 4
   \<and> rect_y (renormalize draftA page800x640) = 1 / 8
   \<and> rect_width (renormalize draftA page800x640) = 1 / 2
   \<and> rect_height (renormalize draftA page800x640) = 1 / 4
   \<and> \<bar>rect_x (renormalize zoomAnnotation page800x640) - rect_x zoomAnnotation\<bar>
        \<le> \<bar>rect_x zoomAnnotation\<bar> / 2 ^ 51"
proof -
  have n: "info_width page800x640 \<noteq> 0" "info_height page800x640 \<noteq> 0"
    by (simp_all add: page800x640_def)
  have d: "is_double (rect_x draftA)" "is_double (rect_x draftA * info_width page800x640)"
    "is_double (rect_y draftA)" "is_double (rect_y draftA * info_height page800x640)"
    "is_double (rect_width draftA)" "is_double (rect_width draftA * info_width page800x640)"
    "is_double (rect_height draftA)" "is_double (rect_height draftA * info_height page800x640)"
    by (simp_all add: draftA_def page800x640_def is_double_def number_eval)
  have v: "rect_x draftA = 1 / 4" "rect_y draftA = 1 / 8" "rect_width draftA = 1 / 2"
    "rect_height draftA = 1 / 4"
    by (simp_all add: draftA_def)
  have ra: "roundTripInRange (rect_x draftA) (info_width page800x640)"
    "roundTripInRange (rect_y draftA) (info_height page800x640)"
    "roundTripInRange (rect_width draftA) (info_width page800x640)"
    "roundTripInRange (rect_height draftA) (info_height page800x640)"
    by (simp_all add: draftA_def page800x640_def roundTripInRange_def normal_range_def number_eval)
  have rz: "roundTripInRange (rect_x zoomAnnotation) (info_width page800x640)"
    "roundTripInRange (rect_y zoomAnnotation) (info_height page800x640)"
    "roundTripInRange (rect_width zoomAnnotation) (info_width page800x640)"
    "roundTripInRange (rect_height zoomAnnotation) (info_height page800x640)"
    by (simp_all add: zoomAnnotation_def normalizeRect_def page1000x800_def page800x640_def
        roundTripInRange_def normal_range_def number_eval)
  have e: "rect_x (renormalize draftA page800x640) = rect_x draftA"
    "rect_y (renormalize draftA page800x640) = rect_y draftA"
    "rect_width (renormalize draftA page800x640) = rect_width draftA"
    "rect_height (renormalize draftA page800x640) = rect_height draftA"
    using renormalize_near [OF n ra] d by blast+
  have z: "\<bar>rect_x (renormalize zoomAnnotation page800x640) - rect_x zoomAnnotation\<bar>
        \<le> \<bar>rect_x zoomAnnotation\<bar> / 2 ^ 51"
    using renormalize_near [OF n rz] by blast
  from n d e z ra rz(1) show ?thesis
    unfolding v by blast
qed

section \<open>The serializers\<close>

lemma digits_nonempty [simp]: "digits n \<noteq> []" "[] \<noteq> digits n"
  by (subst digits.simps, simp)+

lemma digit_char_inj:
  assumes "a < 10" "b < 10" "digit_char a = digit_char b"
  shows "a = b"
proof -
  have "a \<in> {0,1,2,3,4,5,6,7,8,9}" "b \<in> {0,1,2,3,4,5,6,7,8,9}"
    using assms(1,2) by auto
  with assms(3) show ?thesis
    by (auto simp: digit_char_def)
qed

lemma digit_char_not_minus: "d < 10 \<Longrightarrow> digit_char d \<noteq> CHR ''-''"
proof -
  assume "d < 10"
  then have "d \<in> {0,1,2,3,4,5,6,7,8,9}" by auto
  then show ?thesis by (auto simp: digit_char_def)
qed

lemma digits_small: "n < 10 \<Longrightarrow> digits n = [digit_char n]"
  by (subst digits.simps) simp

lemma digits_large: "\<not> n < 10 \<Longrightarrow> digits n = digits (n div 10) @ [digit_char (n mod 10)]"
  by (subst digits.simps) simp

lemma digits_inj: "digits m = digits n \<Longrightarrow> m = n"
proof (induction m arbitrary: n rule: digits.induct)
  case (1 m)
  show ?case
  proof (cases "m < 10")
    case True
    then have m: "digits m = [digit_char m]" by (rule digits_small)
    have n: "n < 10"
    proof (rule ccontr)
      assume "\<not> n < 10"
      then have "digits n = digits (n div 10) @ [digit_char (n mod 10)]" by (rule digits_large)
      with m "1.prems" show False by simp
    qed
    with m "1.prems" True show ?thesis
      by (simp add: digits_small digit_char_inj)
  next
    case False
    then have m: "digits m = digits (m div 10) @ [digit_char (m mod 10)]" by (rule digits_large)
    have n: "\<not> n < 10"
    proof
      assume "n < 10"
      then have "digits n = [digit_char n]" by (rule digits_small)
      with m "1.prems" show False by simp
    qed
    then have "digits n = digits (n div 10) @ [digit_char (n mod 10)]" by (rule digits_large)
    with m "1.prems" have a: "digits (m div 10) = digits (n div 10)"
      and b: "digit_char (m mod 10) = digit_char (n mod 10)" by simp_all
    from "1.IH" [OF False a] have "m div 10 = n div 10" .
    moreover from b have "m mod 10 = n mod 10" by (intro digit_char_inj) simp_all
    ultimately show ?thesis by (metis div_mult_mod_eq)
  qed
qed

lemma digits_hd_not_minus: "hd (digits n) \<noteq> CHR ''-''"
proof (induction n rule: digits.induct)
  case (1 n)
  show ?case
  proof (cases "n < 10")
    case True
    then show ?thesis by (simp add: digits_small digit_char_not_minus)
  next
    case False
    with "1.IH" show ?thesis by (simp add: digits_large)
  qed
qed

lemma js_toString_inject: "js_toString m = js_toString n \<longleftrightarrow> m = n"
proof
  assume e: "js_toString m = js_toString n"
  consider "m < 0" "n < 0" | "\<not> m < 0" "\<not> n < 0" | "m < 0" "\<not> n < 0" | "\<not> m < 0" "n < 0"
    by blast
  then show "m = n"
  proof cases
    case 1
    with e have "digits (nat (- m)) = digits (nat (- n))" by (simp add: js_toString_def)
    then have "nat (- m) = nat (- n)" by (rule digits_inj)
    with 1 show ?thesis by simp
  next
    case 2
    with e have "digits (nat m) = digits (nat n)" by (simp add: js_toString_def)
    then have "nat m = nat n" by (rule digits_inj)
    with 2 show ?thesis by simp
  next
    case 3
    with e have "CHR ''-'' # digits (nat (- m)) = digits (nat n)" by (simp add: js_toString_def)
    then have "hd (digits (nat n)) = CHR ''-''" by (metis list.sel(1))
    with digits_hd_not_minus show ?thesis by blast
  next
    case 4
    with e have "digits (nat m) = CHR ''-'' # digits (nat (- n))" by (simp add: js_toString_def)
    then have "hd (digits (nat m)) = CHR ''-''" by (metis list.sel(1))
    with digits_hd_not_minus show ?thesis by blast
  qed
qed simp

lemma Math_round_nearest: "\<bar>of_int (Math_round y) - y\<bar> \<le> 1 / 2"
  unfolding Math_round_def by linarith

lemma or_else_empty [simp]: "or_else s [] = s"
  by (simp add: or_else_def truthy_def)

lemma csvRows_length [simp]: "length (csvRows ev as) = length as"
  by (simp add: csvRows_def)

lemma csvRows_completed:
  "length (filter (\<lambda>row. row ! 0 \<noteq> [] \<and> row ! 1 \<noteq> []) (csvRows ev as)) =
   length (filter (\<lambda>a. componentLabel a \<noteq> [] \<and> cssSelector a \<noteq> []) as)"
  by (simp add: csvRows_def filter_map comp_def csvRow_def)

lemma scanCsv_escaped:
  "scanCsv InCell cell row rows
     (concat (map (\<lambda>c. if c = CHR 0x22 then [CHR 0x22, CHR 0x22] else [c]) x) @ CHR 0x22 # rest)
   = scanCsv AfterQuote (cell @ x) row rows rest"
  by (induction x arbitrary: cell) simp_all

lemma scanCsv_quoteCell:
  "scanCsv ExpectCell c0 row rows (quoteCell x @ rest) = scanCsv AfterQuote x row rows rest"
  using scanCsv_escaped [of "[]" row rows x rest] by (simp add: quoteCell_def)

lemma scanCsv_row:
  "cs \<noteq> [] \<Longrightarrow>
   scanCsv ExpectCell c0 row rows (join '','' (map quoteCell cs) @ rest)
   = scanCsv AfterQuote (last cs) (row @ butlast cs) rows rest"
proof (induction cs arbitrary: c0 row rule: induct_list012)
  case 1
  then show ?case by simp
next
  case (2 x)
  then show ?case by (simp add: scanCsv_quoteCell)
next
  case (3 x y zs)
  have "scanCsv ExpectCell c0 row rows (join '','' (map quoteCell (x # y # zs)) @ rest)
      = scanCsv AfterQuote x row rows
          (CHR '','' # join '','' (map quoteCell (y # zs)) @ rest)"
    using scanCsv_quoteCell [of c0 row rows x "CHR '','' # join '','' (map quoteCell (y # zs)) @ rest"]
    by simp
  also have "\<dots> = scanCsv ExpectCell [] (row @ [x]) rows (join '','' (map quoteCell (y # zs)) @ rest)"
    by simp
  also have "\<dots> = scanCsv AfterQuote (last (y # zs)) ((row @ [x]) @ butlast (y # zs)) rows rest"
    using "3.IH"(2) [of "[]" "row @ [x]"] by simp
  finally show ?case by simp
qed

lemma scanCsv_rows:
  "rs \<noteq> [] \<Longrightarrow> \<forall>r \<in> set rs. r \<noteq> [] \<Longrightarrow>
   scanCsv ExpectCell c0 [] rows
     (join [CHR 0x0A] (map (\<lambda>row. join '','' (map quoteCell row)) rs))
   = Some (rows @ rs)"
proof (induction rs arbitrary: c0 rows rule: induct_list012)
  case 1
  then show ?case by simp
next
  case (2 r)
  then have r: "r \<noteq> []" by simp
  from scanCsv_row [OF r, of c0 "[]" rows "[]"] r show ?case by simp
next
  case (3 r r' rs)
  then have r: "r \<noteq> []" by simp
  let ?tail = "join [CHR 0x0A] (map (\<lambda>row. join '','' (map quoteCell row)) (r' # rs))"
  have "scanCsv ExpectCell c0 [] rows
     (join [CHR 0x0A] (map (\<lambda>row. join '','' (map quoteCell row)) (r # r' # rs)))
     = scanCsv AfterQuote (last r) (butlast r) rows (CHR 0x0A # ?tail)"
    using scanCsv_row [OF r, of c0 "[]" rows "CHR 0x0A # ?tail"] by simp
  also have "\<dots> = scanCsv ExpectCell [] [] (rows @ [r]) ?tail"
    using r by simp
  also have "\<dots> = Some ((rows @ [r]) @ r' # rs)"
    using "3.IH"(2) [of "[]" "rows @ [r]"] "3.prems" by simp
  finally show ?case by simp
qed

lemma readCsv_csvContent:
  "readCsv (csvContent ev as) = Some (csvHeaders # csvRows ev as)"
proof -
  have "\<forall>r \<in> set (csvHeaders # csvRows ev as). r \<noteq> []"
    by (auto simp: csvHeaders_def csvRows_def csvRow_def)
  then show ?thesis
    unfolding readCsv_def csvContent_def
    using scanCsv_rows [of "csvHeaders # csvRows ev as" "[]" "[]"] by simp
qed

lemma csvDataRows_csvContent: "csvDataRows (csvContent ev as) = csvRows ev as"
  by (simp add: csvDataRows_def readCsv_csvContent)

text \<open>
  Claim C7. For any annotation list whose fractions are in the range of the percentages,
  the JSON export and the CSV export agree. The CSV text that is exported reads back as
  the header row followed by one data row for each annotation. The JSON metadata carries
  \<open>total\<close> and \<open>completed\<close>: \<open>total\<close> is the number of data rows read from the CSV text, and
  \<open>completed\<close> is the number of those rows whose label and selector cells are both
  non-empty. For every annotation the JSON position holds \<open>Math.round\<close> of the fraction
  times 100 for \<open>x\<close>, \<open>y\<close>, \<open>width\<close> and \<open>height\<close>, an integer within one half of that
  product, and the cells 4 to 7 of its row read from the CSV text are the decimal numerals
  of these same four integers (distinct integers have distinct numerals:
  \<open>js_toString_inject\<close>). Both payloads are what the two export functions hand to the
  browser.
\<close>

theorem export_agreement:
  assumes "\<forall>a \<in> set as. positionInRange a"
  shows
  "readCsv (csvContent ev as) = Some (csvHeaders # csvRows ev as)
   \<and> total (meta_stats (metadata (exportDataOf ev as)))
       = int (length (csvDataRows (csvContent ev as)))
   \<and> totalAnnotations (metadata (exportDataOf ev as))
       = int (length (csvDataRows (csvContent ev as)))
   \<and> completed (meta_stats (metadata (exportDataOf ev as)))
       = int (length (filter (\<lambda>row. row ! 0 \<noteq> [] \<and> row ! 1 \<noteq> [])
                        (csvDataRows (csvContent ev as))))
   \<and> length (json_annotations (exportDataOf ev as)) = length (csvDataRows (csvContent ev as))
   \<and> (\<forall>i < length as.
         json_position (json_annotations (exportDataOf ev as) ! i)
           = \<lparr>pos_x = Math_round (js_mul (rect_x (as ! i)) 100),
              pos_y = Math_round (js_mul (rect_y (as ! i)) 100),
              pos_width = Math_round (js_mul (rect_width (as ! i)) 100),
              pos_height = Math_round (js_mul (rect_height (as ! i)) 100)\<rparr>
         \<and> csvDataRows (csvContent ev as) ! i ! 4
             = js_toString (pos_x (json_position (json_annotations (exportDataOf ev as) ! i)))
         \<and> csvDataRows (csvContent ev as) ! i ! 5
             = js_toString (pos_y (json_position (json_annotations (exportDataOf ev as) ! i)))
         \<and> csvDataRows (csvContent ev as) ! i ! 6
             = js_toString (pos_width (json_position (json_annotations (exportDataOf ev as) ! i)))
         \<and> csvDataRows (csvContent ev as) ! i ! 7
             = js_toString (pos_height (json_position (json_annotations (exportDataOf ev as) ! i)))
         \<and> \<bar>of_int (pos_x (json_position (json_annotations (exportDataOf ev as) ! i)))
              - js_mul (rect_x (as ! i)) 100\<bar> \<le> 1 / 2
         \<and> \<bar>of_int (pos_y (json_position (json_annotations (exportDataOf ev as) ! i)))
              - js_mul (rect_y (as ! i)) 100\<bar> \<le> 1 / 2
         \<and> \<bar>of_int (pos_width (json_position (json_annotations (exportDataOf ev as) ! i)))
              - js_mul (rect_width (as ! i)) 100\<bar> \<le> 1 / 2
         \<and> \<bar>of_int (pos_height (json_position (json_annotations (exportDataOf ev as) ! i)))
              - js_mul (rect_height (as ! i)) 100\<bar> \<le> 1 / 2)
   \<and> downloads (exportAsJson this ev name w)
       = downloads w @ [(name @ ''.json'', JsonFile (exportDataOf ev (heap w (exporter_annotations this))))]
   \<and> downloads (exportAsCsv this ev name w)
       = downloads w @ [(name @ ''.csv'', CsvFile (csvContent ev (heap w (exporter_annotations this))))]"
  unfolding csvDataRows_csvContent
proof (intro conjI allI impI)
  show "readCsv (csvContent ev as) = Some (csvHeaders # csvRows ev as)"
    by (rule readCsv_csvContent)
  show "total (meta_stats (metadata (exportDataOf ev as))) = int (length (csvRows ev as))"
    by (simp add: exportDataOf_def annotationStats_total)
  show "totalAnnotations (metadata (exportDataOf ev as)) = int (length (csvRows ev as))"
    by (simp add: exportDataOf_def)
  show "completed (meta_stats (metadata (exportDataOf ev as)))
       = int (length (filter (\<lambda>row. row ! 0 \<noteq> [] \<and> row ! 1 \<noteq> []) (csvRows ev as)))"
    using csvRows_completed [of ev as]
    by (simp add: exportDataOf_def annotationStats_completed)
  show "length (json_annotations (exportDataOf ev as)) = length (csvRows ev as)"
    by (simp add: exportDataOf_def)
  show "downloads (exportAsJson this ev name w)
       = downloads w @ [(name @ ''.json'', JsonFile (exportDataOf ev (heap w (exporter_annotations this))))]"
    by (simp add: exportAsJson_def downloadBlob_def)
  show "downloads (exportAsCsv this ev name w)
       = downloads w @ [(name @ ''.csv'', CsvFile (csvContent ev (heap w (exporter_annotations this))))]"
    by (simp add: exportAsCsv_def downloadBlob_def)
next
  fix i assume i: "i < length as"
  then have j: "json_position (json_annotations (exportDataOf ev as) ! i) = jsonPosition (as ! i)"
    by (simp add: exportDataOf_def jsonAnnotation_def)
  have r: "csvRows ev as ! i = csvRow ev (as ! i)"
    using i by (simp add: csvRows_def)
  show "json_position (json_annotations (exportDataOf ev as) ! i)
           = \<lparr>pos_x = Math_round (js_mul (rect_x (as ! i)) 100),
              pos_y = Math_round (js_mul (rect_y (as ! i)) 100),
              pos_width = Math_round (js_mul (rect_width (as ! i)) 100),
              pos_height = Math_round (js_mul (rect_height (as ! i)) 100)\<rparr>"
    unfolding j by (simp add: jsonPosition_def)
  show "csvRows ev as ! i ! 4
             = js_toString (pos_x (json_position (json_annotations (exportDataOf ev as) ! i)))"
    unfolding j r by (simp add: jsonPosition_def csvRow_def)
  show "csvRows ev as ! i ! 5
             = js_toString (pos_y (json_position (json_annotations (exportDataOf ev as) ! i)))"
    unfolding j r by (simp add: jsonPosition_def csvRow_def)
  show "csvRows ev as ! i ! 6
             = js_toString (pos_width (json_position (json_annotations (exportDataOf ev as) ! i)))"
    unfolding j r by (simp add: jsonPosition_def csvRow_def)
  show "csvRows ev as ! i ! 7
             = js_toString (pos_height (json_position (json_annotations (exportDataOf ev as) ! i)))"
    unfolding j r by (simp add: jsonPosition_def csvRow_def)
  show "\<bar>of_int (pos_x (json_position (json_annotations (exportDataOf ev as) ! i)))
              - js_mul (rect_x (as ! i)) 100\<bar> \<le> 1 / 2"
    unfolding j using Math_round_nearest by (simp add: jsonPosition_def)
  show "\<bar>of_int (pos_y (json_position (json_annotations (exportDataOf ev as) ! i)))
              - js_mul (rect_y (as ! i)) 100\<bar> \<le> 1 / 2"
    unfolding j using Math_round_nearest by (simp add: jsonPosition_def)
  show "\<bar>of_int (pos_width (json_position (json_annotations (exportDataOf ev as) ! i)))
              - js_mul (rect_width (as ! i)) 100\<bar> \<le> 1 / 2"
    unfolding j using Math_round_nearest by (simp add: jsonPosition_def)
  show "\<bar>of_int (pos_height (json_position (json_annotations (exportDataOf ev as) ! i)))
              - js_mul (rect_height (as ! i)) 100\<bar> \<le> 1 / 2"
    unfolding j using Math_round_nearest by (simp add: jsonPosition_def)
qed

lemma annotations_scenarioState:
  "annotations scenarioState =
     [\<lparr>rect_x = binary64 (1 / 10), rect_y = 1 / 8, rect_width = binary64 (1 / 5),
       rect_height = 1 / 8, pageNumber = 1, componentLabel = ''Login Button'',
       cssSelector = ''#login-btn'', description = Some [],
       ann_id = ''a1'', createdAt = 1000, updatedAt = 2000\<rparr>]"
  using handleMouseUp_viewerA
  by (simp add: scenarioState_def dragEnd_def case_prod_beta createAnnotation_def
      setIsCreating_def updateAnnotation_def spread_data_def newAnnotation_def initialState_def
      normalizeRect_def page1000x800_def js_div_def binary64_eighth loginForm_def clockA_def
      annotationData.defs annotation.defs Let_def)

lemma scenario_percentages:
  "Math_round (js_mul (binary64 (1 / 10)) 100) = 10"
  "Math_round (js_mul (1 / 8) 100) = 13"
  "Math_round (js_mul (binary64 (1 / 5)) 100) = 20"
  by (simp_all add: number_eval)

lemma scenario_numerals:
  "js_toString 10 = ''10''" "js_toString 13 = ''13''" "js_toString 20 = ''20''"
  "js_toString 1 = ''1''"
  by (simp_all add: js_toString_def digits.simps digit_char_def)

theorem export_agreement_witness:
  "list_all positionInRange (annotations scenarioState)
   \<and> (0::nat) < length (annotations scenarioState)
   \<and> total (meta_stats (metadata (exportDataOf envOk (annotations scenarioState)))) = 1
   \<and> completed (meta_stats (metadata (exportDataOf envOk (annotations scenarioState)))) = 1
   \<and> length (csvDataRows (csvContent envOk (annotations scenarioState))) = 1
   \<and> json_position (json_annotations (exportDataOf envOk (annotations scenarioState)) ! 0)
       = \<lparr>pos_x = 10, pos_y = 13, pos_width = 20, pos_height = 13\<rparr>
   \<and> take 8 (csvDataRows (csvContent envOk (annotations scenarioState)) ! 0)
       = [''Login Button'', ''#login-btn'', [], ''1'', ''10'', ''13'', ''20'', ''13'']"
proof -
  let ?as = "annotations scenarioState"
  note a = annotations_scenarioState
  have l: "(0::nat) < length ?as" by (simp add: a)
  have rng: "\<forall>a \<in> set ?as. positionInRange a"
    by (simp add: a positionInRange_def percentInRange_def normal_range_def number_eval)
  note t = export_agreement [OF rng, of envOk "createPdfExporter 0" "''out''" worldA]
  from t have rd: "readCsv (csvContent envOk ?as) = Some (csvHeaders # csvRows envOk ?as)"
    by blast
  then have dr: "csvDataRows (csvContent envOk ?as) = csvRows envOk ?as"
    by (simp add: csvDataRows_def)
  from t have tot: "total (meta_stats (metadata (exportDataOf envOk ?as)))
        = int (length (csvDataRows (csvContent envOk ?as)))"
    and com: "completed (meta_stats (metadata (exportDataOf envOk ?as)))
        = int (length (filter (\<lambda>row. row ! 0 \<noteq> [] \<and> row ! 1 \<noteq> [])
                         (csvDataRows (csvContent envOk ?as))))"
    by blast+
  from t l have pos: "json_position (json_annotations (exportDataOf envOk ?as) ! 0)
           = \<lparr>pos_x = Math_round (js_mul (rect_x (?as ! 0)) 100),
              pos_y = Math_round (js_mul (rect_y (?as ! 0)) 100),
              pos_width = Math_round (js_mul (rect_width (?as ! 0)) 100),
              pos_height = Math_round (js_mul (rect_height (?as ! 0)) 100)\<rparr>"
    by blast
  have rows: "csvRows envOk ?as = [csvRow envOk (?as ! 0)]"
    by (simp add: a csvRows_def)
  have p: "json_position (json_annotations (exportDataOf envOk ?as) ! 0)
       = \<lparr>pos_x = 10, pos_y = 13, pos_width = 20, pos_height = 13\<rparr>"
    unfolding pos by (simp add: a scenario_percentages)
  have "take 8 (csvDataRows (csvContent envOk ?as) ! 0)
       = [''Login Button'', ''#login-btn'', [], ''1'', ''10'', ''13'', ''20'', ''13'']"
    unfolding dr rows
    by (simp add: a csvRow_def scenario_percentages scenario_numerals or_else_def truthy_def)
  moreover have n: "length (csvDataRows (csvContent envOk ?as)) = 1"
    unfolding dr rows by simp
  moreover have "total (meta_stats (metadata (exportDataOf envOk ?as))) = 1"
    unfolding tot n by simp
  moreover have "completed (meta_stats (metadata (exportDataOf envOk ?as))) = 1"
    unfolding com dr rows by (simp add: a csvRow_def or_else_def truthy_def)
  moreover have "list_all positionInRange ?as"
    using rng by (simp add: list_all_iff)
  ultimately show ?thesis using l p by blast
qed

end
